theory Spec2Isabelle
  imports
    Complex_Main
    "HOL-Library.AList"
    "HOL-Library.Char_ord"
    "HOL-Library.List_Lexorder"
    "HOL-Library.Sublist"
    "HOL-Library.Multiset"
begin

section \<open>Strings\<close>

text \<open>
  A Go string is a sequence of bytes; it is modelled as a \<^typ>\<open>string\<close> (a list of 8-bit
  characters).  The standard-library functions the codec calls are modelled on bytes:

  \<^item> \<open>strings.TrimSpace\<close> and \<open>strings.Fields\<close> use \<open>unicode.IsSpace\<close>.  The white-space runes
    are listed below by their UTF-8 encodings.  Every one of them starts with a byte that is
    never a continuation byte, so an occurrence in the byte sequence is always a rune of
    the decoded text.
  \<^item> \<open>strings.Split(s, "\t")\<close> and \<open>strings.Join\<close> work on a one-byte separator.
  \<^item> Go compares strings bytewise and lexicographically; this is the order on \<^typ>\<open>string\<close>
    given by \<open>Char_ord\<close> and \<open>List_Lexorder\<close>.
\<close>

definition spaceRunes :: "string list" where
  "spaceRunes =
     [[CHR 0x09], [CHR 0x0A], [CHR 0x0B], [CHR 0x0C], [CHR 0x0D], [CHR 0x20],
      [CHR 0xC2, CHR 0x85], [CHR 0xC2, CHR 0xA0],
      [CHR 0xE1, CHR 0x9A, CHR 0x80],
      [CHR 0xE2, CHR 0x80, CHR 0x80], [CHR 0xE2, CHR 0x80, CHR 0x81],
      [CHR 0xE2, CHR 0x80, CHR 0x82], [CHR 0xE2, CHR 0x80, CHR 0x83],
      [CHR 0xE2, CHR 0x80, CHR 0x84], [CHR 0xE2, CHR 0x80, CHR 0x85],
      [CHR 0xE2, CHR 0x80, CHR 0x86], [CHR 0xE2, CHR 0x80, CHR 0x87],
      [CHR 0xE2, CHR 0x80, CHR 0x88], [CHR 0xE2, CHR 0x80, CHR 0x89],
      [CHR 0xE2, CHR 0x80, CHR 0x8A],
      [CHR 0xE2, CHR 0x80, CHR 0xA8], [CHR 0xE2, CHR 0x80, CHR 0xA9],
      [CHR 0xE2, CHR 0x80, CHR 0xAF], [CHR 0xE2, CHR 0x81, CHR 0x9F],
      [CHR 0xE3, CHR 0x80, CHR 0x80]]"

text \<open>\<open>stripRunes rs s\<close> removes from the front of \<open>s\<close> every leading occurrence of a rune of \<open>rs\<close>.\<close>

function stripRunes :: "string list \<Rightarrow> string \<Rightarrow> string" where
  "stripRunes rs s =
     (case find (\<lambda>r. r \<noteq> [] \<and> prefix r s) rs of
        None \<Rightarrow> s
      | Some r \<Rightarrow> stripRunes rs (drop (length r) s))"
  by pat_completeness auto
termination
  by (relation "measure (\<lambda>(rs, s). length s)") (auto simp: find_Some_iff prefix_def)

definition TrimLeft :: "string \<Rightarrow> string" where
  "TrimLeft s = stripRunes spaceRunes s"

definition TrimRight :: "string \<Rightarrow> string" where
  "TrimRight s = rev (stripRunes (map rev spaceRunes) (rev s))"

definition TrimSpace :: "string \<Rightarrow> string" where
  "TrimSpace s = TrimRight (TrimLeft s)"

definition leadingSpace :: "string \<Rightarrow> bool" where
  "leadingSpace s = (\<exists>r \<in> set spaceRunes. prefix r s)"

definition trailingSpace :: "string \<Rightarrow> bool" where
  "trailingSpace s = (\<exists>r \<in> set spaceRunes. suffix r s)"

definition HasPrefix :: "string \<Rightarrow> string \<Rightarrow> bool" where
  "HasPrefix s p = prefix p s"

fun Split :: "char \<Rightarrow> string \<Rightarrow> string list" where
  "Split sep [] = [[]]"
| "Split sep (c # cs) =
     (if c = sep then [] # Split sep cs
      else (let r = Split sep cs in (c # hd r) # tl r))"

fun Join :: "char \<Rightarrow> string list \<Rightarrow> string" where
  "Join sep [] = []"
| "Join sep [x] = x"
| "Join sep (x # y # ys) = x @ sep # Join sep (y # ys)"

definition splitTabs :: "string \<Rightarrow> string list" where
  "splitTabs line = Split (CHR 0x09) line"

definition joinTabs :: "string list \<Rightarrow> string" where
  "joinTabs parts = Join (CHR 0x09) parts"

section \<open>The ALE file structure\<close>

text \<open>
  A Go \<open>map[string]string\<close> is modelled as an association list with distinct keys, written
  with \<^const>\<open>AList.update\<close> and read with \<^const>\<open>map_of\<close>.  Reading a missing key of a Go map
  gives the empty string.
\<close>

type_synonym gomap = "(string \<times> string) list"

definition get :: "gomap \<Rightarrow> string \<Rightarrow> string" where
  "get m k = (case map_of m k of None \<Rightarrow> [] | Some v \<Rightarrow> v)"

definition ColumnName :: string where "ColumnName = ''Name''"
definition ColumnTracks :: string where "ColumnTracks = ''Tracks''"
definition ColumnStart :: string where "ColumnStart = ''Start''"
definition ColumnEnd :: string where "ColumnEnd = ''End''"
definition ColumnDuration :: string where "ColumnDuration = ''Duration''"
definition ColumnTape :: string where "ColumnTape = ''Tape''"
definition ColumnSourceFile :: string where "ColumnSourceFile = ''Source File''"

definition HeaderHeading :: string where "HeaderHeading = ''Heading''"
definition HeaderColumn :: string where "HeaderColumn = ''Column''"
definition HeaderData :: string where "HeaderData = ''Data''"
definition HeaderFieldDelim :: string where "HeaderFieldDelim = ''FIELD_DELIM''"
definition HeaderVideoFormat :: string where "HeaderVideoFormat = ''VIDEO_FORMAT''"
definition HeaderAudioFormat :: string where "HeaderAudioFormat = ''AUDIO_FORMAT''"
definition HeaderFPS :: string where "HeaderFPS = ''FPS''"

definition DefaultFPS :: real where "DefaultFPS = 24"
definition DefaultFieldDelim :: string where "DefaultFieldDelim = ''TABS''"

record ALEFile =
  Headers :: gomap
  Columns :: "string list"
  Rows :: "gomap list"

definition NewALEFile :: ALEFile where
  "NewALEFile = \<lparr>Headers = [], Columns = [], Rows = []\<rparr>"

section \<open>The section parser\<close>

text \<open>
  \<open>Decoder.parseALE\<close> reads the input with a \<open>bufio.Scanner\<close>, line by line.  The loop's
  variables are the state below.  One iteration of the loop is \<open>parseLine\<close>: it gets the line
  the scanner delivered and, as \<open>nxt\<close>, the line a further call of \<open>scanner.Scan()\<close> would
  deliver (\<open>None\<close> at the end of the input); it returns the new state and whether it consumed
  that further line, which only the \<open>Column\<close> branch does.
\<close>

record parser =
  inHeading :: bool
  inData :: bool
  columns :: "string list"
  aleFile :: ALEFile

definition parserInit :: parser where
  "parserInit = \<lparr>inHeading = False, inData = False, columns = [], aleFile = NewALEFile\<rparr>"

fun fillRow :: "string list \<Rightarrow> string list \<Rightarrow> nat \<Rightarrow> gomap \<Rightarrow> gomap" where
  "fillRow [] values i row = row"
| "fillRow (col # cols) values i row =
     fillRow cols values (Suc i)
       (AList.update col (if i < length values then TrimSpace (values ! i) else []) row)"

definition parseLine :: "parser \<Rightarrow> string \<Rightarrow> string option \<Rightarrow> parser \<times> bool" where
  "parseLine st line nxt =
     (let trimmed = TrimSpace line in
      if trimmed = [] then (st, False)
      else if HasPrefix trimmed HeaderHeading then (st\<lparr>inHeading := True\<rparr>, False)
      else if HasPrefix trimmed HeaderColumn then
        (case nxt of
           Some columnLine \<Rightarrow>
             (let cols = map TrimSpace (splitTabs columnLine) in
              (st\<lparr>inHeading := False, columns := cols,
                  aleFile := (aleFile st)\<lparr>Columns := cols\<rparr>\<rparr>, True))
         | None \<Rightarrow> (st\<lparr>inHeading := False\<rparr>, False))
      else if HasPrefix trimmed HeaderData then (st\<lparr>inData := True\<rparr>, False)
      else if inHeading st then
        (let parts = splitTabs line in
         if length parts \<ge> 2 then
           (st\<lparr>aleFile := (aleFile st)\<lparr>Headers :=
               AList.update (TrimSpace (parts ! 0)) (TrimSpace (parts ! 1))
                 (Headers (aleFile st))\<rparr>\<rparr>, False)
         else (st, False))
      else if inData st \<and> length (columns st) > 0 then
        (let values = splitTabs line in
         if length values > 0 then
           (st\<lparr>aleFile := (aleFile st)\<lparr>Rows :=
               Rows (aleFile st) @ [fillRow (columns st) values 0 []]\<rparr>\<rparr>, False)
         else (st, False))
      else (st, False))"

fun parseLoop :: "parser \<Rightarrow> string list \<Rightarrow> parser" where
  "parseLoop st [] = st"
| "parseLoop st (line # rest) =
     (case parseLine st line (case rest of [] \<Rightarrow> None | l # _ \<Rightarrow> Some l) of
        (st', consumed) \<Rightarrow> parseLoop st' (if consumed then tl rest else rest))"


text \<open>
  The cell a data line gives to the column at position \<open>n\<close>, and the lines on which
  \<open>parseLine\<close> takes the \<open>Column\<close> branch.
\<close>

definition cell :: "string list \<Rightarrow> nat \<Rightarrow> string" where
  "cell values n = (if n < length values then TrimSpace (values ! n) else [])"

definition columnMarker :: "string \<Rightarrow> bool" where
  "columnMarker line = HasPrefix (TrimSpace line) HeaderColumn"

text \<open>Every row was filled from a column line and a data line of the input.\<close>

definition rowFrom :: "string list \<Rightarrow> gomap \<Rightarrow> bool" where
  "rowFrom L r = (\<exists>cl \<in> set L. \<exists>l \<in> set L. r = fillRow (map TrimSpace (splitTabs cl)) (splitTabs l) 0 [])"

definition parserInv :: "string list \<Rightarrow> parser \<Rightarrow> bool" where
  "parserInv L st =
     ((\<forall>r \<in> set (Rows (aleFile st)). rowFrom L r)
      \<and> (columns st = [] \<or> (\<exists>cl \<in> set L. columns st = map TrimSpace (splitTabs cl)))
      \<and> Columns (aleFile st) = columns st
      \<and> (Rows (aleFile st) \<noteq> [] \<longrightarrow> columns st \<noteq> []))"

section \<open>External libraries\<close>

text \<open>
  A finite \<open>float64\<close> of Go is modelled by the real number it denotes (see the section on
  floating-point numbers below); infinities and NaN are outside the model.

  The codec calls the standard library (\<open>strconv\<close>, \<open>fmt\<close>) and the time library
  \<open>gotio/opentime\<close>, whose sources are not part of this repository.  The functions it calls
  are the fields of the record \<open>extlib\<close>, and every function of the codec takes the library as
  its first argument; a failing call returns \<open>None\<close>.  \<open>RangeOrder\<close> is the order in which
  the Go runtime enumerates the entries of a map in a \<open>range\<close> loop, which Go leaves
  unspecified.
\<close>

record RationalTime =
  rt_value :: real
  rt_rate :: real

record TimeRange =
  start_time :: RationalTime
  duration :: RationalTime

definition NewRationalTime :: "real \<Rightarrow> real \<Rightarrow> RationalTime" where
  "NewRationalTime v r = \<lparr>rt_value = v, rt_rate = r\<rparr>"

definition NewTimeRange :: "RationalTime \<Rightarrow> RationalTime \<Rightarrow> TimeRange" where
  "NewTimeRange s d = \<lparr>start_time = s, duration = d\<rparr>"

record extlib =
  ParseFloat :: "string \<Rightarrow> real option"
  Sscanf2 :: "string \<Rightarrow> (int \<times> int) option"
  FromTimecode :: "string \<Rightarrow> real \<Rightarrow> RationalTime option"
  FromFrames :: "real \<Rightarrow> real \<Rightarrow> RationalTime"
  DurationFromStartEndTime :: "RationalTime \<Rightarrow> RationalTime \<Rightarrow> RationalTime"
  RescaledTo :: "RationalTime \<Rightarrow> real \<Rightarrow> RationalTime"
  ToTimecode :: "RationalTime \<Rightarrow> real \<Rightarrow> bool \<Rightarrow> string option"
  EndTimeExclusive :: "TimeRange \<Rightarrow> RationalTime"
  RangeOrder :: "gomap \<Rightarrow> gomap"

datatype error =
    EmptyTimecode
  | InvalidTimecodeFormat string
  | NumError string
  | InvalidFPS string
  | FPSNotPositive real
  | InvalidCDL string
  | ReadError
  | ParseError error
  | EmptyInput
  | InvalidStart string error
  | InvalidEnd string error
  | InvalidDuration string error
  | RowError nat error
  | NilTimeline
  | FormatStartError
  | FormatEndError
  | ClipError string error
  | EncodeError error

section \<open>Floating-point numbers\<close>

text \<open>
  Go's \<open>float64\<close> is the binary64 format of IEEE 754.  A finite \<open>float64\<close> is modelled by the
  real number it denotes: a number \<open>m \<times> 2\<^sup>e\<close> with an integer \<open>m\<close> of at most 53 bits and
  \<open>-1074 \<le> e \<le> 971\<close>.  \<open>Float64 x\<close> is the \<open>float64\<close> nearest to the real \<open>x\<close>, a tie going to
  the even \<open>m\<close>: it is the value of a numeric constant \<open>x\<close> of the source where a \<open>float64\<close> is
  expected (the constant \<open>29.96\<close> of \<open>isDropFrame\<close> is \<open>Float64 29.96\<close>, which is not 29.96),
  and the value \<open>strconv.ParseFloat\<close> returns for a numeral whose value is \<open>x\<close>.  A number
  \<open>x\<close> for which \<open>overflows x\<close> holds is too large for a finite \<open>float64\<close>.  \<open>isFloat64 x\<close>
  says that \<open>x\<close> is the value of a finite \<open>float64\<close>.  Infinities and NaN are outside the
  model.

  \<open>roundHalfEven\<close> rounds to the nearest integer, a tie going to the even one;
  \<open>bitLength n\<close> is the number of binary digits of \<open>n\<close>; \<open>scaleUp 0 a\<close> is, for \<open>a < 1\<close>, the
  number of times \<open>a\<close> must be doubled to reach 1, at most 1022 (below \<open>2\<^sup>-\<^sup>1\<^sup>0\<^sup>2\<^sup>2\<close> the
  \<open>float64\<close>s are equally spaced); \<open>exponent64 x\<close> is the exponent \<open>e\<close> of the \<open>float64\<close>s
  next to \<open>x\<close>.
\<close>

definition roundHalfEven :: "real \<Rightarrow> int" where
  "roundHalfEven x =
     (let f = \<lfloor>x\<rfloor>; d = x - of_int f
      in if d < 1 / 2 then f else if d > 1 / 2 then f + 1 else if even f then f else f + 1)"

function bitLength :: "int \<Rightarrow> int" where
  "bitLength n = (if n \<le> 0 then 0 else 1 + bitLength (n div 2))"
  by pat_completeness auto
termination
  by (relation "measure nat") auto

function scaleUp :: "int \<Rightarrow> real \<Rightarrow> int" where
  "scaleUp k a = (if k \<ge> 1022 \<or> a \<ge> 1 then k else scaleUp (k + 1) (2 * a))"
  by pat_completeness auto
termination
  by (relation "measure (\<lambda>(k, a). nat (1022 - k))") auto

definition exponent64 :: "real \<Rightarrow> int" where
  "exponent64 x = (if \<bar>x\<bar> \<ge> 1 then bitLength \<lfloor>\<bar>x\<bar>\<rfloor> - 1 else - scaleUp 0 \<bar>x\<bar>) - 52"

definition pow2 :: "int \<Rightarrow> real" where
  "pow2 e = (if e \<ge> 0 then 2 ^ nat e else 1 / 2 ^ nat (- e))"

definition Float64 :: "real \<Rightarrow> real" where
  "Float64 x = of_int (roundHalfEven (x / pow2 (exponent64 x))) * pow2 (exponent64 x)"

definition overflows :: "real \<Rightarrow> bool" where
  "overflows x =
     (exponent64 x > 971 \<or> (exponent64 x = 971 \<and> \<bar>roundHalfEven (x / pow2 971)\<bar> \<ge> 2 ^ 53))"

definition isFloat64 :: "real \<Rightarrow> bool" where
  "isFloat64 x = (Float64 x = x \<and> \<not> overflows x)"

section \<open>Time codes and frame rates\<close>

definition parseTimecode :: "extlib \<Rightarrow> string \<Rightarrow> real \<Rightarrow> error + RationalTime" where
  "parseTimecode lib tc fps =
     (if tc = [] then Inl EmptyTimecode
      else case FromTimecode lib tc fps of
        Some rt \<Rightarrow> Inr rt
      | None \<Rightarrow>
          (case ParseFloat lib tc of
             Some frames \<Rightarrow> Inr (FromFrames lib frames fps)
           | None \<Rightarrow> Inl (InvalidTimecodeFormat tc)))"

definition formatTimecode :: "extlib \<Rightarrow> RationalTime \<Rightarrow> real \<Rightarrow> bool \<Rightarrow> string option" where
  "formatTimecode lib rt fps df = ToTimecode lib (RescaledTo lib rt fps) fps df"

definition parseFrameNumber :: "extlib \<Rightarrow> string \<Rightarrow> real \<Rightarrow> error + RationalTime" where
  "parseFrameNumber lib s fps =
     (case ParseFloat lib s of
        None \<Rightarrow> Inl (NumError s)
      | Some frames \<Rightarrow> Inr (FromFrames lib frames fps))"

definition parseFPS :: "extlib \<Rightarrow> string \<Rightarrow> error + real" where
  "parseFPS lib s0 =
     (let s = TrimSpace s0 in
      if s = [] then Inr DefaultFPS
      else case ParseFloat lib s of
        None \<Rightarrow> Inl (InvalidFPS s)
      | Some fps \<Rightarrow> if fps \<le> 0 then Inl (FPSNotPositive fps) else Inr fps)"

definition isDropFrame :: "real \<Rightarrow> bool" where
  "isDropFrame fps =
     ((fps > Float64 29.96 \<and> fps < Float64 29.98) \<or> (fps > Float64 59.93 \<and> fps < Float64 59.95))"

section \<open>ASC CDL\<close>

record SOPValues =
  Slope :: "real \<times> real \<times> real"
  Offset :: "real \<times> real \<times> real"
  Power :: "real \<times> real \<times> real"

record CDLData =
  ASCSOP :: "SOPValues option"
  ASCSat :: "real option"

text \<open>\<open>strings.Fields\<close>: the maximal runs of bytes between white-space runes.\<close>

function fieldsFrom :: "string \<Rightarrow> string \<Rightarrow> string list" where
  "fieldsFrom cur s =
     (if s = [] then (if cur = [] then [] else [rev cur])
      else case find (\<lambda>r. r \<noteq> [] \<and> prefix r s) spaceRunes of
        Some r \<Rightarrow> (if cur = [] then [] else [rev cur]) @ fieldsFrom [] (drop (length r) s)
      | None \<Rightarrow> fieldsFrom (hd s # cur) (tl s))"
  by pat_completeness auto
termination
  by (relation "measure (\<lambda>(cur, s). length s)") (auto simp: find_Some_iff prefix_def)

definition Fields :: "string \<Rightarrow> string list" where
  "Fields s = fieldsFrom [] s"

definition ReplaceAll :: "string \<Rightarrow> char \<Rightarrow> char \<Rightarrow> string" where
  "ReplaceAll s old new = map (\<lambda>c. if c = old then new else c) s"

text \<open>The three loops of \<open>parseASCSOP\<close>, each over three consecutive fields.\<close>

definition parseTriple :: "extlib \<Rightarrow> string list \<Rightarrow> nat \<Rightarrow> error + real \<times> real \<times> real" where
  "parseTriple lib flds k =
     (case ParseFloat lib (flds ! k) of
        None \<Rightarrow> Inl (InvalidCDL (flds ! k))
      | Some a \<Rightarrow>
         (case ParseFloat lib (flds ! (k + 1)) of
            None \<Rightarrow> Inl (InvalidCDL (flds ! (k + 1)))
          | Some b \<Rightarrow>
             (case ParseFloat lib (flds ! (k + 2)) of
                None \<Rightarrow> Inl (InvalidCDL (flds ! (k + 2)))
              | Some c \<Rightarrow> Inr (a, b, c))))"

definition parseASCSOP :: "extlib \<Rightarrow> string \<Rightarrow> error + SOPValues" where
  "parseASCSOP lib s0 =
     (let flds = Fields (ReplaceAll (ReplaceAll s0 (CHR ''('') (CHR '' '')) (CHR '')'') (CHR '' ''))
      in if length flds < 9 then Inl (InvalidCDL s0)
         else case parseTriple lib flds 0 of
           Inl e \<Rightarrow> Inl e
         | Inr sl \<Rightarrow>
            (case parseTriple lib flds 3 of
               Inl e \<Rightarrow> Inl e
             | Inr off \<Rightarrow>
                (case parseTriple lib flds 6 of
                   Inl e \<Rightarrow> Inl e
                 | Inr pw \<Rightarrow> Inr \<lparr>Slope = sl, Offset = off, Power = pw\<rparr>)))"

text \<open>
  \<open>parseASCCDL\<close> has the result type \<open>(*CDLData, error)\<close>, and every \<open>return\<close> of it gives the
  error \<open>nil\<close>: the errors of the two sub-parsers are dropped by the tests \<open>err == nil\<close>.
\<close>

definition parseASCCDL :: "extlib \<Rightarrow> string \<Rightarrow> string \<Rightarrow> error + CDLData option" where
  "parseASCCDL lib ascSOP ascSat =
     (let sop = (if ascSOP \<noteq> [] then
                   (case parseASCSOP lib ascSOP of Inr v \<Rightarrow> Some v | Inl e \<Rightarrow> None)
                 else None);
          sat = (if ascSat \<noteq> [] then ParseFloat lib (TrimSpace ascSat) else None)
      in if sop \<noteq> None \<or> sat \<noteq> None then Inr (Some \<lparr>ASCSOP = sop, ASCSat = sat\<rparr>)
         else Inr None)"

section \<open>The timeline model\<close>

text \<open>
  The timeline objects belong to the library \<open>gotio\<close>.  The codec uses a timeline as a
  sequence of tracks, each with a kind and a sequence of clips (\<open>FindClips\<close> enumerates the
  clips track by track); a clip has a name, an optional media reference, an optional source
  range and a metadata dictionary, of which the codec reads and writes the keys \<open>"ALE"\<close> (a
  \<open>map[string]interface{}\<close>) and \<open>"cdl"\<close> (a \<open>*CDLData\<close>).  A value of the \<open>"ALE"\<close> map is a
  string or something else, of which only its rendering by \<open>fmt.Sprintf("%v", _)\<close> matters.
\<close>

datatype MediaReference =
    ExternalReference string string "TimeRange option"
  | MissingReference string "TimeRange option"
  | OtherReference "TimeRange option"

datatype anyval = StringValue string | OtherValue string

record AnyDictionary =
  ALE :: "(string \<times> anyval) list option"
  cdl :: "CDLData option"

record Clip =
  Name :: string
  MediaRef :: "MediaReference option"
  SourceRange :: "TimeRange option"
  Metadata :: AnyDictionary

record Track =
  TrackName :: string
  Kind :: string
  Children :: "Clip list"

record Timeline =
  TimelineName :: string
  Tracks :: "Track list"

definition TrackKindVideo :: string where "TrackKindVideo = ''Video''"
definition TrackKindAudio :: string where "TrackKindAudio = ''Audio''"

definition FindClips :: "Timeline \<Rightarrow> Clip list" where
  "FindClips t = concat (map Children (Tracks t))"

definition VideoTracks :: "Timeline \<Rightarrow> Track list" where
  "VideoTracks t = filter (\<lambda>tr. Kind tr = TrackKindVideo) (Tracks t)"

definition AudioTracks :: "Timeline \<Rightarrow> Track list" where
  "AudioTracks t = filter (\<lambda>tr. Kind tr = TrackKindAudio) (Tracks t)"

definition AvailableRange :: "MediaReference \<Rightarrow> TimeRange option" where
  "AvailableRange r =
     (case r of ExternalReference n u a \<Rightarrow> a | MissingReference n a \<Rightarrow> a | OtherReference a \<Rightarrow> a)"

section \<open>Decimal numerals\<close>

text \<open>\<open>strconv.FormatInt(_, 10)\<close>, and \<open>%d\<close> of \<open>fmt.Sprintf\<close>.\<close>

definition digitChar :: "nat \<Rightarrow> char" where
  "digitChar n = char_of (48 + n)"

fun showNat :: "nat \<Rightarrow> string" where
  "showNat n = (if n < 10 then [digitChar n] else showNat (n div 10) @ [digitChar (n mod 10)])"

definition FormatInt :: "int \<Rightarrow> string" where
  "FormatInt i = (if i < 0 then CHR ''-'' # showNat (nat (- i)) else showNat (nat i))"

text \<open>
  \<open>fmt.Sprintf("%.Nf", x)\<close> of the \<open>float64\<close> with the value \<open>x\<close>: the sign, the integer part and
  \<open>N\<close> decimal digits of the multiple of \<open>10\<^sup>-\<^sup>N\<close> nearest to \<open>x\<close> (a tie goes to the even one).
  Go renders the exact binary value the program holds: the constant \<open>0.95\<close> is the \<open>float64\<close>
  \<open>Float64 0.95\<close>, which lies below 0.95, and \<open>%.1f\<close> writes it as \<open>0.9\<close>.
\<close>

definition padZeros :: "nat \<Rightarrow> string \<Rightarrow> string" where
  "padZeros p s = replicate (p - length s) (CHR ''0'') @ s"

definition FormatFixed :: "nat \<Rightarrow> real \<Rightarrow> string" where
  "FormatFixed p x =
     (let n = nat (roundHalfEven (\<bar>x\<bar> * 10 ^ p))
      in (if x < 0 then [CHR ''-''] else []) @ showNat (n div 10 ^ p) @
         (if p = 0 then [] else CHR ''.'' # padZeros p (showNat (n mod 10 ^ p))))"


text \<open>
  Plain decimal numerals: an optional minus sign, digits and, optionally, a point and
  digits; \<open>readDecimal\<close> gives the value of such a numeral.  \<open>strconv.ParseFloat\<close> returns
  for it the \<open>float64\<close> nearest to this value, and fails when the value is too large for a
  \<open>float64\<close> (it accepts other forms too); \<open>parseDecimal64\<close> is this function on the plain
  numerals and \<open>readsDecimals\<close> states of a library that it agrees with it.
\<close>

definition isDigit :: "char \<Rightarrow> bool" where
  "isDigit c = (CHR ''0'' \<le> c \<and> c \<le> CHR ''9'')"

text \<open>The characters of the numerals and time codes the encoder writes.\<close>

definition numeralChar :: "char \<Rightarrow> bool" where
  "numeralChar c = (isDigit c \<or> c = CHR ''-'' \<or> c = CHR ''.'' \<or> c = CHR '':'')"

fun readDigits :: "nat \<Rightarrow> string \<Rightarrow> nat option" where
  "readDigits acc [] = Some acc"
| "readDigits acc (c # cs) =
     (if isDigit c then readDigits (10 * acc + (of_char c - 48)) cs else None)"

definition readNat :: "string \<Rightarrow> nat option" where
  "readNat s = (if s = [] then None else readDigits 0 s)"

definition readUnsigned :: "string \<Rightarrow> real option" where
  "readUnsigned s =
     (let ip = takeWhile (\<lambda>c. c \<noteq> CHR ''.'') s; rest = dropWhile (\<lambda>c. c \<noteq> CHR ''.'') s
      in case readNat ip of
           None \<Rightarrow> None
         | Some i \<Rightarrow>
            (case rest of
               [] \<Rightarrow> Some (real i)
             | c # fr \<Rightarrow>
                (case readNat fr of
                   None \<Rightarrow> None
                 | Some f \<Rightarrow> Some (real i + real f / 10 ^ length fr))))"

definition readDecimal :: "string \<Rightarrow> real option" where
  "readDecimal s =
     (case s of
        [] \<Rightarrow> None
      | c # t \<Rightarrow> if c = CHR ''-'' then map_option uminus (readUnsigned t) else readUnsigned s)"

definition parseDecimal64 :: "string \<Rightarrow> real option" where
  "parseDecimal64 s =
     (case readDecimal s of
        None \<Rightarrow> None
      | Some v \<Rightarrow> if overflows v then None else Some (Float64 v))"


section \<open>Sorting by exchange\<close>

text \<open>
  Both sorting loops of the codec have the form
  \<^verbatim>\<open>for i := 0; i < len(keys); i++ { for j := i + 1; j < len(keys); j++ {
       if keys[i] > keys[j] { keys[i], keys[j] = keys[j], keys[i] } } }\<close>
  The inner loop is \<open>sweep\<close>: it carries the current \<open>keys[i]\<close> along the rest of the slice,
  exchanging it with every element it is greater than, and returns the final \<open>keys[i]\<close>
  and the rest of the slice.
\<close>

fun sweep :: "('a \<Rightarrow> 'a \<Rightarrow> bool) \<Rightarrow> 'a \<Rightarrow> 'a list \<Rightarrow> 'a \<times> 'a list" where
  "sweep gt cur [] = (cur, [])"
| "sweep gt cur (y # ys) =
     (if gt cur y then (case sweep gt y ys of (m, r) \<Rightarrow> (m, cur # r))
      else (case sweep gt cur ys of (m, r) \<Rightarrow> (m, y # r)))"

lemma length_sweep: "sweep gt cur ys = (m, r) \<Longrightarrow> length r = length ys"
proof (induction ys arbitrary: cur m r)
  case Nil
  then show ?case by simp
next
  case (Cons y ys)
  show ?case
  proof (cases "gt cur y")
    case True
    obtain m' r' where s: "sweep gt y ys = (m', r')" by (cases "sweep gt y ys")
    with True Cons.prems have "r = cur # r'" by simp
    with Cons.IH [OF s] show ?thesis by simp
  next
    case False
    obtain m' r' where s: "sweep gt cur ys = (m', r')" by (cases "sweep gt cur ys")
    with False Cons.prems have "r = y # r'" by simp
    with Cons.IH [OF s] show ?thesis by simp
  qed
qed

function exchangeSort :: "('a \<Rightarrow> 'a \<Rightarrow> bool) \<Rightarrow> 'a list \<Rightarrow> 'a list" where
  "exchangeSort gt [] = []"
| "exchangeSort gt (x # xs) = (case sweep gt x xs of (m, r) \<Rightarrow> m # exchangeSort gt r)"
  by pat_completeness auto
termination
  by (relation "measure (\<lambda>(gt, xs). length xs)") (auto dest: length_sweep [OF sym])

section \<open>The decoder\<close>

record Decoder =
  fps :: real
  nameColumnKey :: string
  dropFrame :: bool

definition NewDecoder :: Decoder where
  "NewDecoder = \<lparr>fps = DefaultFPS, nameColumnKey = ColumnName, dropFrame = False\<rparr>"

text \<open>
  The scanner's outcome is the list of lines it delivered and whether it stopped with an
  error (\<open>scanner.Err() != nil\<close>).
\<close>

definition parseALE :: "string list \<Rightarrow> bool \<Rightarrow> error + ALEFile" where
  "parseALE lines scanErr =
     (let st = parseLoop parserInit lines in
      if scanErr then Inl ReadError else Inr (aleFile st))"

definition ToUpper :: "string \<Rightarrow> string" where
  "ToUpper s = map (\<lambda>c. if CHR ''a'' \<le> c \<and> c \<le> CHR ''z'' then char_of (of_char c - (32::nat)) else c) s"

definition parseTrackKind :: "string \<Rightarrow> string" where
  "parseTrackKind tracksValue0 =
     (let tracksValue = TrimSpace (ToUpper tracksValue0) in
      if CHR ''V'' \<in> set tracksValue \<and> CHR ''A'' \<in> set tracksValue then TrackKindVideo
      else if CHR ''A'' \<in> set tracksValue then TrackKindAudio
      else TrackKindVideo)"

text \<open>\<open>strings.Compare\<close> and \<open>compareTrackKeys\<close>.\<close>

definition Compare :: "string \<Rightarrow> string \<Rightarrow> int" where
  "Compare a b = (if a = b then 0 else if a < b then - 1 else 1)"

definition compareTrackKeys :: "string \<Rightarrow> string \<Rightarrow> int" where
  "compareTrackKeys a b =
     (let aHasV = CHR ''V'' \<in> set a; aHasA = CHR ''A'' \<in> set a;
          bHasV = CHR ''V'' \<in> set b; bHasA = CHR ''A'' \<in> set b
      in if aHasV \<and> aHasA \<and> bHasV \<and> bHasA then Compare a b
         else if aHasV \<and> aHasA then - 1
         else if bHasV \<and> bHasA then 1
         else if aHasV \<and> bHasA then - 1
         else if aHasA \<and> bHasV then 1
         else Compare a b)"

definition sortTrackKeys :: "string list \<Rightarrow> string list" where
  "sortTrackKeys keys = exchangeSort (\<lambda>a b. compareTrackKeys a b > 0) keys"

text \<open>The three parts of \<open>rowToClip\<close>: the source range, the media reference, the metadata.\<close>

definition rowSourceRange :: "extlib \<Rightarrow> Decoder \<Rightarrow> gomap \<Rightarrow> error + TimeRange option" where
  "rowSourceRange lib d row =
     (let startTC = get row ColumnStart;
          endTC = get row ColumnEnd;
          durationStr = get row ColumnDuration
      in if startTC \<noteq> [] \<and> endTC \<noteq> [] then
           (case parseTimecode lib startTC (fps d) of
              Inl e \<Rightarrow> Inl (InvalidStart startTC e)
            | Inr startTime \<Rightarrow>
               (case parseTimecode lib endTC (fps d) of
                  Inl e \<Rightarrow> Inl (InvalidEnd endTC e)
                | Inr endTime \<Rightarrow>
                    Inr (Some (NewTimeRange startTime
                                 (DurationFromStartEndTime lib startTime endTime)))))
         else if durationStr \<noteq> [] then
           (case (case parseFrameNumber lib durationStr (fps d) of
                    Inr v \<Rightarrow> Inr v
                  | Inl e \<Rightarrow> parseTimecode lib durationStr (fps d)) of
              Inl e \<Rightarrow> Inl (InvalidDuration durationStr e)
            | Inr dur \<Rightarrow>
               (if startTC \<noteq> [] then
                  (case parseTimecode lib startTC (fps d) of
                     Inl e \<Rightarrow> Inl (InvalidStart startTC e)
                   | Inr startTime \<Rightarrow> Inr (Some (NewTimeRange startTime dur)))
                else Inr (Some (NewTimeRange (NewRationalTime 0 (fps d)) dur))))
         else Inr None)"

definition rowMediaRef :: "gomap \<Rightarrow> string \<Rightarrow> TimeRange option \<Rightarrow> MediaReference" where
  "rowMediaRef row name sourceRange =
     (let sourceFile0 = get row ColumnSourceFile;
          sourceFile = (if sourceFile0 = [] then get row ColumnTape else sourceFile0)
      in if sourceFile \<noteq> [] then ExternalReference sourceFile sourceFile sourceRange
         else MissingReference name sourceRange)"

definition excludeColumns :: "Decoder \<Rightarrow> string \<Rightarrow> bool" where
  "excludeColumns d key =
     (key \<in> {nameColumnKey d, ColumnStart, ColumnEnd, ColumnDuration, ColumnSourceFile,
             ColumnTape, ''ASC_SOP'', ''ASC_SAT''})"

definition rowMetadata :: "extlib \<Rightarrow> Decoder \<Rightarrow> gomap \<Rightarrow> AnyDictionary" where
  "rowMetadata lib d row =
     (let ascSOP = get row ''ASC_SOP'';
          ascSat = get row ''ASC_SAT'';
          cdlEntry = (if ascSOP \<noteq> [] \<or> ascSat \<noteq> [] then
                        (case parseASCCDL lib ascSOP ascSat of
                           Inr (Some c) \<Rightarrow> Some c
                         | Inr None \<Rightarrow> None
                         | Inl e \<Rightarrow> None)
                      else None);
          aleMetadata = filter (\<lambda>(key, v). \<not> excludeColumns d key \<and> v \<noteq> []) row
      in \<lparr>ALE = (if length aleMetadata > 0
                 then Some (map (\<lambda>(key, v). (key, StringValue v)) aleMetadata) else None),
          cdl = cdlEntry\<rparr>)"

definition rowToClip :: "extlib \<Rightarrow> Decoder \<Rightarrow> gomap \<Rightarrow> nat \<Rightarrow> error + Clip" where
  "rowToClip lib d row index =
     (let name0 = get row (nameColumnKey d);
          name = (if name0 = [] then ''Clip '' @ FormatInt (int index + 1) else name0)
      in case rowSourceRange lib d row of
           Inl e \<Rightarrow> Inl e
         | Inr sourceRange \<Rightarrow>
             Inr \<lparr>Name = name,
                  MediaRef = Some (rowMediaRef row name sourceRange),
                  SourceRange = sourceRange,
                  Metadata = rowMetadata lib d row\<rparr>)"

text \<open>
  The two loops of \<open>aleToTimeline\<close>.  With a \<open>Tracks\<close> column the clips are collected in
  \<open>trackMap\<close>, an association list in the order in which the keys first occur.  Appending a
  new clip to a new track does not fail.
\<close>

definition appendToTrack :: "(string \<times> Track) list \<Rightarrow> string \<Rightarrow> string \<Rightarrow> Clip \<Rightarrow> (string \<times> Track) list" where
  "appendToTrack trackMap trackKey trackKind clip =
     (case map_of trackMap trackKey of
        None \<Rightarrow> trackMap @ [(trackKey, \<lparr>TrackName = trackKey, Kind = trackKind, Children = [clip]\<rparr>)]
      | Some track \<Rightarrow> AList.update trackKey (track\<lparr>Children := Children track @ [clip]\<rparr>) trackMap)"

fun tracksLoop :: "extlib \<Rightarrow> Decoder \<Rightarrow> gomap list \<Rightarrow> nat \<Rightarrow> (string \<times> Track) list \<Rightarrow> error + (string \<times> Track) list" where
  "tracksLoop lib d [] i trackMap = Inr trackMap"
| "tracksLoop lib d (row # rows) i trackMap =
     (case rowToClip lib d row i of
        Inl e \<Rightarrow> Inl (RowError i e)
      | Inr clip \<Rightarrow>
         (let tracksValue = get row ColumnTracks;
              trackKind = parseTrackKind tracksValue;
              trackKey = (if tracksValue = [] then ''V'' else tracksValue)
          in tracksLoop lib d rows (Suc i) (appendToTrack trackMap trackKey trackKind clip)))"

fun videoLoop :: "extlib \<Rightarrow> Decoder \<Rightarrow> gomap list \<Rightarrow> nat \<Rightarrow> Clip list \<Rightarrow> error + Clip list" where
  "videoLoop lib d [] i clips = Inr clips"
| "videoLoop lib d (row # rows) i clips =
     (case rowToClip lib d row i of
        Inl e \<Rightarrow> Inl (RowError i e)
      | Inr clip \<Rightarrow> videoLoop lib d rows (Suc i) (clips @ [clip]))"

definition aleToTimeline :: "extlib \<Rightarrow> Decoder \<Rightarrow> ALEFile \<Rightarrow> error + Timeline" where
  "aleToTimeline lib d f =
     (if length (Rows f) = 0 then Inl EmptyInput
      else if ColumnTracks \<in> set (Columns f) then
        (case tracksLoop lib d (Rows f) 0 [] of
           Inl e \<Rightarrow> Inl e
         | Inr trackMap \<Rightarrow>
             Inr \<lparr>TimelineName = ''ALE Timeline'',
                  Tracks = map (\<lambda>key. the (map_of trackMap key))
                             (sortTrackKeys (map fst trackMap))\<rparr>)
      else
        (case videoLoop lib d (Rows f) 0 [] of
           Inl e \<Rightarrow> Inl e
         | Inr clips \<Rightarrow>
             Inr \<lparr>TimelineName = ''ALE Timeline'',
                  Tracks = [\<lparr>TrackName = ''Video'', Kind = TrackKindVideo, Children = clips\<rparr>]\<rparr>))"

text \<open>The first part of \<open>Decode\<close>: the \<open>FPS\<close> header sets the rate and the drop-frame flag.\<close>

definition applyHeaderFPS :: "extlib \<Rightarrow> Decoder \<Rightarrow> ALEFile \<Rightarrow> Decoder" where
  "applyHeaderFPS lib d f =
     (case map_of (Headers f) HeaderFPS of
        Some fpsStr \<Rightarrow>
          (case parseFPS lib fpsStr of
             Inr v \<Rightarrow> d\<lparr>fps := v, dropFrame := isDropFrame v\<rparr>
           | Inl e \<Rightarrow> d)
      | None \<Rightarrow> d)"

definition Decode :: "extlib \<Rightarrow> Decoder \<Rightarrow> string list \<Rightarrow> bool \<Rightarrow> error + Timeline" where
  "Decode lib d lines scanErr =
     (case parseALE lines scanErr of
        Inl e \<Rightarrow> Inl (ParseError e)
      | Inr f \<Rightarrow> aleToTimeline lib (applyHeaderFPS lib d f) f)"

section \<open>The encoder\<close>

record Encoder =
  efps :: real
  edropFrame :: bool
  ecolumns :: "string list"

definition NewEncoder :: Encoder where
  "NewEncoder = \<lparr>efps = DefaultFPS, edropFrame = False, ecolumns = []\<rparr>"

text \<open>\<open>int64(x)\<close> of a \<open>float64\<close> drops the fraction.\<close>

definition truncate :: "real \<Rightarrow> int" where
  "truncate x = (if x \<ge> 0 then \<lfloor>x\<rfloor> else \<lceil>x\<rceil>)"

definition formatFrameNumber :: "extlib \<Rightarrow> RationalTime \<Rightarrow> real \<Rightarrow> string" where
  "formatFrameNumber lib rt r = FormatInt (truncate (rt_value (RescaledTo lib rt r)))"

definition formatTriple :: "real \<times> real \<times> real \<Rightarrow> string" where
  "formatTriple t =
     (case t of (a, b, c) \<Rightarrow>
        ''('' @ FormatFixed 4 a @ '' '' @ FormatFixed 4 b @ '' '' @ FormatFixed 4 c @ '')'')"

definition formatASCSOP :: "SOPValues \<Rightarrow> string" where
  "formatASCSOP sop = formatTriple (Slope sop) @ formatTriple (Offset sop) @ formatTriple (Power sop)"

definition videoFormatFromDimensions :: "int \<Rightarrow> int \<Rightarrow> string" where
  "videoFormatFromDimensions width height =
     (if height = 1080 then (if width > 1920 then ''CUSTOM'' else ''1080'')
      else if height = 720 then ''720''
      else if height = 576 then ''PAL''
      else if height = 486 then ''NTSC''
      else ''CUSTOM'')"

definition parseImageSize :: "extlib \<Rightarrow> string \<Rightarrow> (int \<times> int) option" where
  "parseImageSize lib imageSize =
     Sscanf2 lib (concat (map (\<lambda>c. if c = CHR '' '' then []
                                     else if c = CHR ''x'' \<or> c = CHR ''X'' then '' ''
                                     else [c]) imageSize))"

fun inferLoop :: "extlib \<Rightarrow> Clip list \<Rightarrow> int \<times> int \<Rightarrow> int \<times> int" where
  "inferLoop lib [] mx = mx"
| "inferLoop lib (clip # clips) (maxWidth, maxHeight) =
     inferLoop lib clips
       (case ALE (Metadata clip) of
          None \<Rightarrow> (maxWidth, maxHeight)
        | Some aleMap \<Rightarrow>
           (case map_of aleMap ''Image Size'' of
              Some (StringValue imageSizeStr) \<Rightarrow>
                (case parseImageSize lib imageSizeStr of
                   Some (w, h) \<Rightarrow> if h > maxHeight then (w, h) else (maxWidth, maxHeight)
                 | None \<Rightarrow> (maxWidth, maxHeight))
            | _ \<Rightarrow> (maxWidth, maxHeight)))"

definition inferVideoFormat :: "extlib \<Rightarrow> Clip list \<Rightarrow> string" where
  "inferVideoFormat lib clips =
     (case inferLoop lib clips (0, 0) of
        (maxWidth, maxHeight) \<Rightarrow>
          if maxHeight > 0 then videoFormatFromDimensions maxWidth maxHeight else ''1080'')"

text \<open>
  \<open>determineColumns\<close> collects the extra columns in the map \<open>extraColumns\<close>, used as a set:
  here a list without repetitions.  The loop over the clips adds the names to it; the
  names are then enumerated (in an order Go leaves open) and sorted by exchange.
\<close>

definition scanClip :: "Clip \<Rightarrow> string list \<Rightarrow> string list" where
  "scanClip clip extraColumns =
     (let e1 = (case MediaRef clip of
                  Some (ExternalReference n targetURL a) \<Rightarrow>
                    if targetURL \<noteq> [] then List.insert ColumnSourceFile extraColumns
                    else extraColumns
                | _ \<Rightarrow> extraColumns);
          e2 = (case ALE (Metadata clip) of
                  Some aleMap \<Rightarrow> fold List.insert (map fst aleMap) e1
                | None \<Rightarrow> e1);
          e3 = (case cdl (Metadata clip) of
                  Some c \<Rightarrow>
                    (let s1 = (if ASCSOP c \<noteq> None then List.insert ''ASC_SOP'' e2 else e2)
                     in if ASCSat c \<noteq> None then List.insert ''ASC_SAT'' s1 else s1)
                | None \<Rightarrow> e2)
      in e3)"

definition determineColumns :: "Encoder \<Rightarrow> Timeline \<Rightarrow> string list" where
  "determineColumns e timeline =
     (if length (ecolumns e) > 0 then ecolumns e
      else
        (let cols0 = [ColumnName, ColumnStart, ColumnEnd, ColumnDuration];
             hasVideo = length (VideoTracks timeline) > 0;
             hasAudio = length (AudioTracks timeline) > 0;
             cols = (if hasVideo \<or> hasAudio then cols0 @ [ColumnTracks] else cols0);
             extraColumns = fold scanClip (FindClips timeline) [];
             extraCols = exchangeSort (\<lambda>a b. a > b) extraColumns
         in cols @ extraCols))"

text \<open>
  \<open>clipToRow\<close>: \<open>cellFor\<close> is the \<open>switch\<close> on the column name, which returns the value to
  store, if any; \<open>clipCols\<close> is the loop over the columns.
\<close>

definition clipRange :: "Clip \<Rightarrow> TimeRange option" where
  "clipRange clip =
     (case SourceRange clip of
        Some r \<Rightarrow> Some r
      | None \<Rightarrow> (case MediaRef clip of Some ref \<Rightarrow> AvailableRange ref | None \<Rightarrow> None))"

definition cellFor :: "extlib \<Rightarrow> Encoder \<Rightarrow> Clip \<Rightarrow> TimeRange option \<Rightarrow> string \<Rightarrow> error + string option" where
  "cellFor lib e clip sourceRange col =
     (if col = ColumnName then Inr (Some (Name clip))
      else if col = ColumnStart then
        (case sourceRange of
           None \<Rightarrow> Inr None
         | Some r \<Rightarrow>
            (case formatTimecode lib (start_time r) (efps e) (edropFrame e) of
               None \<Rightarrow> Inl FormatStartError
             | Some tc \<Rightarrow> Inr (Some tc)))
      else if col = ColumnEnd then
        (case sourceRange of
           None \<Rightarrow> Inr None
         | Some r \<Rightarrow>
            (case formatTimecode lib (EndTimeExclusive lib r) (efps e) (edropFrame e) of
               None \<Rightarrow> Inl FormatEndError
             | Some tc \<Rightarrow> Inr (Some tc)))
      else if col = ColumnDuration then
        (case sourceRange of
           None \<Rightarrow> Inr None
         | Some r \<Rightarrow> Inr (Some (formatFrameNumber lib (duration r) (efps e))))
      else if col = ColumnTracks then Inr (Some ''V'')
      else if col = ColumnSourceFile \<or> col = ColumnTape then
        (case MediaRef clip of
           Some (ExternalReference n targetURL a) \<Rightarrow> Inr (Some targetURL)
         | _ \<Rightarrow> Inr None)
      else if col = ''ASC_SOP'' then
        (case cdl (Metadata clip) of
           Some c \<Rightarrow> (case ASCSOP c of Some sop \<Rightarrow> Inr (Some (formatASCSOP sop)) | None \<Rightarrow> Inr None)
         | None \<Rightarrow> Inr None)
      else if col = ''ASC_SAT'' then
        (case cdl (Metadata clip) of
           Some c \<Rightarrow> (case ASCSat c of Some sat \<Rightarrow> Inr (Some (FormatFixed 1 sat)) | None \<Rightarrow> Inr None)
         | None \<Rightarrow> Inr None)
      else
        (case ALE (Metadata clip) of
           Some aleMap \<Rightarrow>
             (case map_of aleMap col of
                Some (StringValue strValue) \<Rightarrow> Inr (Some strValue)
              | Some (OtherValue shown) \<Rightarrow> Inr (Some shown)
              | None \<Rightarrow> Inr None)
         | None \<Rightarrow> Inr None))"

fun clipCols :: "extlib \<Rightarrow> Encoder \<Rightarrow> Clip \<Rightarrow> TimeRange option \<Rightarrow> string list \<Rightarrow> gomap \<Rightarrow> error + gomap" where
  "clipCols lib e clip sourceRange [] row = Inr row"
| "clipCols lib e clip sourceRange (col # cols) row =
     (case cellFor lib e clip sourceRange col of
        Inl err \<Rightarrow> Inl err
      | Inr None \<Rightarrow> clipCols lib e clip sourceRange cols row
      | Inr (Some v) \<Rightarrow> clipCols lib e clip sourceRange cols (AList.update col v row))"

definition clipToRow :: "extlib \<Rightarrow> Encoder \<Rightarrow> Clip \<Rightarrow> string list \<Rightarrow> error + gomap" where
  "clipToRow lib e clip cols = clipCols lib e clip (clipRange clip) cols []"

fun clipsToRows :: "extlib \<Rightarrow> Encoder \<Rightarrow> Clip list \<Rightarrow> string list \<Rightarrow> error + gomap list" where
  "clipsToRows lib e [] cols = Inr []"
| "clipsToRows lib e (clip # clips) cols =
     (case clipToRow lib e clip cols of
        Inl err \<Rightarrow> Inl (ClipError (Name clip) err)
      | Inr row \<Rightarrow>
         (case clipsToRows lib e clips cols of
            Inl err \<Rightarrow> Inl err
          | Inr rows \<Rightarrow> Inr (row # rows)))"

definition timelineToALE :: "extlib \<Rightarrow> Encoder \<Rightarrow> Timeline \<Rightarrow> error + ALEFile" where
  "timelineToALE lib e timeline =
     (let clips = FindClips timeline;
          headers = AList.update HeaderVideoFormat (inferVideoFormat lib clips)
                     (AList.update HeaderFPS (FormatFixed 2 (efps e))
                       (AList.update HeaderAudioFormat ''48kHz''
                         (AList.update HeaderFieldDelim DefaultFieldDelim [])));
          cols = determineColumns e timeline
      in case clipsToRows lib e clips cols of
           Inl err \<Rightarrow> Inl err
         | Inr rows \<Rightarrow> Inr \<lparr>Headers = headers, Columns = cols, Rows = rows\<rparr>)"

text \<open>
  \<open>writeALE\<close> gives the lines and the text written.  The header lines come in the order in
  which the runtime enumerates the map \<open>Headers\<close>.  Writing to the \<open>io.Writer\<close> does not fail.
\<close>

definition aleLines :: "extlib \<Rightarrow> ALEFile \<Rightarrow> string list" where
  "aleLines lib f =
     [HeaderHeading] @ map (\<lambda>(key, v). key @ [CHR 0x09] @ v) (RangeOrder lib (Headers f)) @ [[]]
     @ [HeaderColumn, joinTabs (Columns f), []]
     @ [HeaderData] @ map (\<lambda>row. joinTabs (map (get row) (Columns f))) (Rows f)"

definition writeALE :: "extlib \<Rightarrow> ALEFile \<Rightarrow> string" where
  "writeALE lib f =
     (let output = Join (CHR 0x0A) (aleLines lib f)
      in if suffix [CHR 0x0A] output then output else output @ [CHR 0x0A])"

definition Encode :: "extlib \<Rightarrow> Encoder \<Rightarrow> Timeline option \<Rightarrow> error + string" where
  "Encode lib e timeline =
     (case timeline of
        None \<Rightarrow> Inl NilTimeline
      | Some t \<Rightarrow>
         (case timelineToALE lib e t of
            Inl err \<Rightarrow> Inl (EncodeError err)
          | Inr f \<Rightarrow> Inr (writeALE lib f)))"

text \<open>The names \<open>determineColumns\<close> collects as extra columns, as a set.\<close>

definition clipExtras :: "Clip \<Rightarrow> string set" where
  "clipExtras clip =
     (case MediaRef clip of
        Some (ExternalReference n targetURL a) \<Rightarrow> if targetURL \<noteq> [] then {ColumnSourceFile} else {}
      | _ \<Rightarrow> {})
     \<union> (case ALE (Metadata clip) of Some aleMap \<Rightarrow> fst ` set aleMap | None \<Rightarrow> {})
     \<union> (case cdl (Metadata clip) of
          Some c \<Rightarrow> (if ASCSOP c \<noteq> None then {''ASC_SOP''} else {})
                    \<union> (if ASCSat c \<noteq> None then {''ASC_SAT''} else {})
        | None \<Rightarrow> {})"

definition extraSet :: "Timeline \<Rightarrow> string set" where
  "extraSet timeline = (\<Union>clip \<in> set (FindClips timeline). clipExtras clip)"

text \<open>
  The column order as the specification states it: the four time columns, \<open>Tracks\<close>,
  \<open>Source File\<close>, \<open>ASC_SOP\<close>, \<open>ASC_SAT\<close>, and then the residual metadata keys, sorted.
\<close>

definition columnsAsStated :: "Timeline \<Rightarrow> string list" where
  "columnsAsStated timeline =
     [ColumnName, ColumnStart, ColumnEnd, ColumnDuration]
     @ (if VideoTracks timeline \<noteq> [] \<or> AudioTracks timeline \<noteq> [] then [ColumnTracks] else [])
     @ (if ColumnSourceFile \<in> extraSet timeline then [ColumnSourceFile] else [])
     @ (if ''ASC_SOP'' \<in> extraSet timeline then [''ASC_SOP''] else [])
     @ (if ''ASC_SAT'' \<in> extraSet timeline then [''ASC_SAT''] else [])
     @ sorted_list_of_set
         (\<Union>clip \<in> set (FindClips timeline).
            case ALE (Metadata clip) of Some aleMap \<Rightarrow> fst ` set aleMap | None \<Rightarrow> {})"

section \<open>Reading a text with the scanner\<close>

text \<open>
  \<open>bufio.Scanner\<close> with its default split function: the text is cut at every line feed, a
  last piece without line feed is a line if it is not empty, and one carriage return at the
  end of a line is dropped.  The scanner stops with an error at a line that does not fit,
  with its line feed, into the buffer of \<open>MaxScanTokenSize\<close> bytes; the lines before it have
  been delivered.
\<close>

definition MaxScanTokenSize :: nat where
  "MaxScanTokenSize = 65536"

function rawLines :: "string \<Rightarrow> string list" where
  "rawLines s =
     (if s = [] then []
      else takeWhile (\<lambda>c. c \<noteq> CHR 0x0A) s #
           (case dropWhile (\<lambda>c. c \<noteq> CHR 0x0A) s of [] \<Rightarrow> [] | c # rest \<Rightarrow> rawLines rest))"
  by pat_completeness auto
termination
proof (relation "measure length")
  show "wf (measure length)" by simp
next
  fix s :: string and c rest
  assume "s \<noteq> []" and "dropWhile (\<lambda>c. c \<noteq> CHR 0x0A) s = c # rest"
  then have "length (c # rest) \<le> length s"
    by (metis length_dropWhile_le)
  then show "(rest, s) \<in> measure length" by simp
qed

definition dropCR :: "string \<Rightarrow> string" where
  "dropCR s = (if s \<noteq> [] \<and> last s = CHR 0x0D then butlast s else s)"

definition Scan :: "string \<Rightarrow> string list \<times> bool" where
  "Scan text =
     (let ls = rawLines text; fits = (\<lambda>l. length l < MaxScanTokenSize)
      in (map dropCR (takeWhile fits ls), \<not> list_all fits ls))"

definition DecodeText :: "extlib \<Rightarrow> Decoder \<Rightarrow> string \<Rightarrow> error + Timeline" where
  "DecodeText lib d text = (case Scan text of (lines, scanErr) \<Rightarrow> Decode lib d lines scanErr)"

section \<open>A reference instance of the libraries\<close>

text \<open>
  \<open>ndfLib\<close> is a small instance of the external functions, used to evaluate the codec on
  examples: decimal numerals read as the nearest \<open>float64\<close>, and non-drop-frame time code \<open>HH:MM:SS:FF\<close> in the way of
  OpenTimelineIO's \<open>opentime\<close> (the duration from a start to an end is their difference, the
  exclusive end of a range is its start plus its duration).
\<close>

definition pad2 :: "nat \<Rightarrow> string" where
  "pad2 n = padZeros 2 (showNat n)"

definition ndfToTimecode :: "RationalTime \<Rightarrow> real \<Rightarrow> bool \<Rightarrow> string option" where
  "ndfToTimecode rt r df =
     (if rt_value rt < 0 \<or> df then None
      else let n = nat \<lfloor>rt_value rt\<rfloor>; nominal = nat \<lceil>r\<rceil>; secs = n div nominal
           in Some (pad2 (secs div 3600) @ '':'' @ pad2 ((secs div 60) mod 60) @ '':'' @
                    pad2 (secs mod 60) @ '':'' @ pad2 (n mod nominal)))"

definition ndfFromTimecode :: "string \<Rightarrow> real \<Rightarrow> RationalTime option" where
  "ndfFromTimecode tc r =
     (case map readNat (Split (CHR '':'') tc) of
        [Some hh, Some mm, Some ss, Some ff] \<Rightarrow>
          (let nominal = nat \<lceil>r\<rceil>
           in if ff < nominal
              then Some \<lparr>rt_value = real (((hh * 60 + mm) * 60 + ss) * nominal + ff), rt_rate = r\<rparr>
              else None)
      | _ \<Rightarrow> None)"

definition ndfLib :: extlib where
  "ndfLib =
     \<lparr>ParseFloat = parseDecimal64,
      Sscanf2 = (\<lambda>s. case map readNat (Split (CHR '' '') s) of
                        [Some w, Some h] \<Rightarrow> Some (int w, int h) | _ \<Rightarrow> None),
      FromTimecode = ndfFromTimecode,
      FromFrames = (\<lambda>frames r. \<lparr>rt_value = of_int \<lfloor>frames\<rfloor>, rt_rate = r\<rparr>),
      DurationFromStartEndTime =
        (\<lambda>s e. \<lparr>rt_value = rt_value e * rt_rate s / rt_rate e - rt_value s, rt_rate = rt_rate s\<rparr>),
      RescaledTo = (\<lambda>t r. \<lparr>rt_value = rt_value t * r / rt_rate t, rt_rate = r\<rparr>),
      ToTimecode = ndfToTimecode,
      EndTimeExclusive =
        (\<lambda>tr. \<lparr>rt_value = rt_value (start_time tr) +
                          rt_value (duration tr) * rt_rate (start_time tr) / rt_rate (duration tr),
                rt_rate = rt_rate (start_time tr)\<rparr>),
      RangeOrder = (\<lambda>m. m)\<rparr>"

section \<open>Timelines that survive a round trip\<close>

text \<open>
  A cell is clean when the section parser reads it back as it is: it has no tab and no
  line feed, and no white space at its ends.  A clean name is moreover not empty and does
  not start with a section name.
\<close>

definition cleanCell :: "string \<Rightarrow> bool" where
  "cleanCell s = (TrimSpace s = s \<and> CHR 0x09 \<notin> set s \<and> CHR 0x0A \<notin> set s)"

definition cleanName :: "string \<Rightarrow> bool" where
  "cleanName s =
     (s \<noteq> [] \<and> cleanCell s \<and> \<not> HasPrefix s HeaderHeading \<and> \<not> HasPrefix s HeaderColumn
      \<and> \<not> HasPrefix s HeaderData)"

definition structuralColumns :: "string list" where
  "structuralColumns =
     [ColumnName, ColumnStart, ColumnEnd, ColumnDuration, ColumnTracks, ColumnSourceFile,
      ColumnTape, ''ASC_SOP'', ''ASC_SAT'']"

definition cleanEntry :: "string \<times> anyval \<Rightarrow> bool" where
  "cleanEntry kv =
     (case kv of
        (k, StringValue v) \<Rightarrow> cleanCell k \<and> k \<notin> set structuralColumns \<and> v \<noteq> [] \<and> cleanCell v
      | (k, OtherValue shown) \<Rightarrow> False)"

definition cleanMetadata :: "Clip \<Rightarrow> bool" where
  "cleanMetadata clip =
     (case ALE (Metadata clip) of
        None \<Rightarrow> True
      | Some m \<Rightarrow> distinct (map fst m) \<and> list_all cleanEntry m)"

definition cleanRef :: "Clip \<Rightarrow> bool" where
  "cleanRef clip =
     (case MediaRef clip of
        Some (ExternalReference n targetURL a) \<Rightarrow> cleanCell targetURL
      | _ \<Rightarrow> True)"

text \<open>
  The rate the decoder works with after it has read the \<open>FPS\<close> header the encoder wrote, and
  the condition on the time library: it reads back, at that rate, the time codes the
  encoder writes for the range of the clip.
\<close>

definition decodedFPS :: "extlib \<Rightarrow> Encoder \<Rightarrow> Decoder \<Rightarrow> real" where
  "decodedFPS lib e d =
     (case parseFPS lib (FormatFixed 2 (efps e)) of Inr v \<Rightarrow> v | Inl err \<Rightarrow> fps d)"

definition timeRoundTrips :: "extlib \<Rightarrow> Encoder \<Rightarrow> real \<Rightarrow> Clip \<Rightarrow> bool" where
  "timeRoundTrips lib e r clip =
     (case clipRange clip of
        None \<Rightarrow> True
      | Some tr \<Rightarrow>
         (case formatTimecode lib (start_time tr) (efps e) (edropFrame e) of
            None \<Rightarrow> False
          | Some startTC \<Rightarrow>
             (case formatTimecode lib (EndTimeExclusive lib tr) (efps e) (edropFrame e) of
                None \<Rightarrow> False
              | Some endTC \<Rightarrow>
                  startTC \<noteq> [] \<and> endTC \<noteq> [] \<and> cleanCell startTC \<and> cleanCell endTC
                  \<and> parseTimecode lib startTC r = Inr (start_time tr)
                  \<and> (case parseTimecode lib endTC r of
                        Inl err \<Rightarrow> False
                      | Inr endTime \<Rightarrow>
                          DurationFromStartEndTime lib (start_time tr) endTime = duration tr))))"

definition roundTripClip :: "extlib \<Rightarrow> Encoder \<Rightarrow> Decoder \<Rightarrow> Clip \<Rightarrow> bool" where
  "roundTripClip lib e d clip =
     (cleanName (Name clip) \<and> cleanMetadata clip \<and> cleanRef clip
      \<and> timeRoundTrips lib e (decodedFPS lib e d) clip)"

definition roundTripInput :: "extlib \<Rightarrow> Encoder \<Rightarrow> Decoder \<Rightarrow> Timeline \<Rightarrow> bool" where
  "roundTripInput lib e d t =
     (FindClips t \<noteq> [] \<and> ecolumns e = [] \<and> nameColumnKey d = ColumnName
      \<and> list_all (roundTripClip lib e d) (FindClips t))"

text \<open>The residual metadata of a clip, as a map.\<close>

definition aleMap :: "Clip \<Rightarrow> string \<rightharpoonup> anyval" where
  "aleMap clip = (case ALE (Metadata clip) of None \<Rightarrow> Map.empty | Some m \<Rightarrow> map_of m)"

definition withTracks :: "bool \<Rightarrow> (string \<rightharpoonup> anyval) \<Rightarrow> string \<rightharpoonup> anyval" where
  "withTracks b m = (if b then m(ColumnTracks \<mapsto> StringValue ''V'') else m)"

text \<open>
  A header line of the written file and the assignment the parser makes for it; the cells
  of a data line whose first cell is a clean name; and the condition that every line the
  encoder writes for a timeline fits the scanner's buffer.
\<close>

definition headerLine :: "string \<times> string \<Rightarrow> string" where
  "headerLine kv = (case kv of (key, v) \<Rightarrow> key @ [CHR 0x09] @ v)"

definition putHeader :: "string \<times> string \<Rightarrow> gomap \<Rightarrow> gomap" where
  "putHeader kv h = (case kv of (key, v) \<Rightarrow> AList.update key v h)"

definition rowCells :: "string list \<Rightarrow> bool" where
  "rowCells cells = (length cells \<ge> 2 \<and> cleanName (hd cells) \<and> (\<forall>c \<in> set cells. cleanCell c))"

definition linesFit :: "extlib \<Rightarrow> Encoder \<Rightarrow> Timeline \<Rightarrow> bool" where
  "linesFit lib e t =
     (case timelineToALE lib e t of
        Inl err \<Rightarrow> False
      | Inr f \<Rightarrow> list_all (\<lambda>l. length l < MaxScanTokenSize) (aleLines lib f))"

definition cellOf :: "extlib \<Rightarrow> Encoder \<Rightarrow> Clip \<Rightarrow> string \<Rightarrow> string" where
  "cellOf lib e clip col =
     (case cellFor lib e clip (clipRange clip) col of Inr (Some v) \<Rightarrow> v | _ \<Rightarrow> [])"

section \<open>Example values\<close>

definition exampleClip :: Clip where
  "exampleClip =
     \<lparr>Name = ''Clip001'',
      MediaRef = Some (ExternalReference ''a.mov'' ''/a.mov'' None),
      SourceRange = None,
      Metadata = \<lparr>ALE = Some [(''Camera'', StringValue ''A'')],
                  cdl = Some \<lparr>ASCSOP = Some \<lparr>Slope = (1, 1, 1), Offset = (0, 0, 0), Power = (1, 1, 1)\<rparr>,
                             ASCSat = Some 1\<rparr>\<rparr>\<rparr>"

definition exampleTimeline :: Timeline where
  "exampleTimeline =
     \<lparr>TimelineName = ''T'',
      Tracks = [\<lparr>TrackName = ''V1'', Kind = TrackKindVideo, Children = [exampleClip]\<rparr>]\<rparr>"

section \<open>Properties of the string functions\<close>

declare stripRunes.simps [simp del]
declare fieldsFrom.simps [simp del]
declare showNat.simps [simp del]
declare rawLines.simps [simp del]

lemma spaceRunes_nonempty: "r \<in> set spaceRunes \<Longrightarrow> r \<noteq> []"
  by (auto simp: spaceRunes_def)

lemma stripRunes_no_prefix:
  "r \<in> set rs \<Longrightarrow> r \<noteq> [] \<Longrightarrow> \<not> prefix r (stripRunes rs s)"
proof (induction rs s rule: stripRunes.induct)
  case (1 rs s)
  show ?case
  proof (cases "find (\<lambda>r. r \<noteq> [] \<and> prefix r s) rs")
    case None
    then have "\<not> prefix r s"
      using "1.prems" by (auto simp: find_None_iff)
    with None show ?thesis by (simp add: stripRunes.simps [of rs s])
  next
    case (Some q)
    with "1.IH" [OF Some] "1.prems" show ?thesis by (simp add: stripRunes.simps [of rs s])
  qed
qed

lemma stripRunes_suffix: "suffix (stripRunes rs s) s"
proof (induction rs s rule: stripRunes.induct)
  case (1 rs s)
  show ?case
  proof (cases "find (\<lambda>r. r \<noteq> [] \<and> prefix r s) rs")
    case None
    then show ?thesis by (simp add: stripRunes.simps [of rs s])
  next
    case (Some q)
    have "suffix (drop (length q) s) s" by (rule suffix_drop)
    with "1.IH" [OF Some] Some show ?thesis
      by (simp add: stripRunes.simps [of rs s] suffix_order.trans)
  qed
qed

lemma stripRunes_id:
  "(\<And>r. r \<in> set rs \<Longrightarrow> r \<noteq> [] \<Longrightarrow> \<not> prefix r s) \<Longrightarrow> stripRunes rs s = s"
proof -
  assume a: "\<And>r. r \<in> set rs \<Longrightarrow> r \<noteq> [] \<Longrightarrow> \<not> prefix r s"
  then have "find (\<lambda>r. r \<noteq> [] \<and> prefix r s) rs = None"
    by (auto simp: find_None_iff)
  then show ?thesis by (simp add: stripRunes.simps [of rs s])
qed

lemma TrimLeft_no_leading: "\<not> leadingSpace (TrimLeft s)"
  unfolding leadingSpace_def TrimLeft_def
  using stripRunes_no_prefix spaceRunes_nonempty by blast

lemma TrimLeft_suffix: "suffix (TrimLeft s) s"
  unfolding TrimLeft_def by (rule stripRunes_suffix)

lemma TrimRight_prefix: "prefix (TrimRight s) s"
proof -
  have "suffix (stripRunes (map rev spaceRunes) (rev s)) (rev s)"
    by (rule stripRunes_suffix)
  then show ?thesis
    unfolding TrimRight_def by (metis rev_rev_ident suffix_to_prefix)
qed

lemma TrimRight_no_trailing: "\<not> trailingSpace (TrimRight s)"
proof
  assume "trailingSpace (TrimRight s)"
  then obtain r where r: "r \<in> set spaceRunes" "suffix r (TrimRight s)"
    by (auto simp: trailingSpace_def)
  then have "prefix (rev r) (stripRunes (map rev spaceRunes) (rev s))"
    by (simp add: TrimRight_def suffix_to_prefix)
  moreover have "rev r \<in> set (map rev spaceRunes)" "rev r \<noteq> []"
    using r spaceRunes_nonempty by auto
  ultimately show False
    using stripRunes_no_prefix by blast
qed

lemma leadingSpace_prefix: "prefix t s \<Longrightarrow> leadingSpace t \<Longrightarrow> leadingSpace s"
  unfolding leadingSpace_def by (meson prefix_order.trans)

lemma TrimSpace_no_leading: "\<not> leadingSpace (TrimSpace s)"
  unfolding TrimSpace_def
  using leadingSpace_prefix [OF TrimRight_prefix] TrimLeft_no_leading by blast

lemma TrimSpace_no_trailing: "\<not> trailingSpace (TrimSpace s)"
  unfolding TrimSpace_def by (rule TrimRight_no_trailing)

lemma TrimSpace_id: "\<not> leadingSpace s \<Longrightarrow> \<not> trailingSpace s \<Longrightarrow> TrimSpace s = s"
proof -
  assume l: "\<not> leadingSpace s" and t: "\<not> trailingSpace s"
  have "TrimLeft s = s"
    unfolding TrimLeft_def using l by (intro stripRunes_id) (auto simp: leadingSpace_def)
  moreover have "TrimRight s = s"
  proof -
    have "stripRunes (map rev spaceRunes) (rev s) = rev s"
    proof (rule stripRunes_id)
      fix r assume "r \<in> set (map rev spaceRunes)" "r \<noteq> []"
      then obtain q where "q \<in> set spaceRunes" "r = rev q" by auto
      with t show "\<not> prefix r (rev s)"
        by (auto simp: trailingSpace_def suffix_to_prefix)
    qed
    then show ?thesis by (simp add: TrimRight_def)
  qed
  ultimately show ?thesis by (simp add: TrimSpace_def)
qed

lemma TrimSpace_idem: "TrimSpace (TrimSpace s) = TrimSpace s"
  by (rule TrimSpace_id [OF TrimSpace_no_leading TrimSpace_no_trailing])

lemma TrimSpace_Nil: "TrimSpace [] = []"
  by (rule TrimSpace_id) (auto simp: leadingSpace_def trailingSpace_def dest: spaceRunes_nonempty)

lemma Split_nonempty: "Split sep s \<noteq> []"
  by (induction s) (auto simp: Let_def)

section \<open>Decoding an input without data rows\<close>

lemma tracksLoop_error:
  "tracksLoop lib d rows i tm = Inl e \<Longrightarrow> \<exists>j e'. e = RowError j e'"
  by (induction rows arbitrary: i tm) (auto simp: Let_def split: sum.splits)

lemma videoLoop_error:
  "videoLoop lib d rows i cs = Inl e \<Longrightarrow> \<exists>j e'. e = RowError j e'"
  by (induction rows arbitrary: i cs) (auto split: sum.splits)

lemma aleToTimeline_EmptyInput:
  "(aleToTimeline lib d f = Inl EmptyInput) = (Rows f = [])"
  by (auto simp: aleToTimeline_def split: sum.splits dest: tracksLoop_error videoLoop_error)

text \<open>
  Claim C2.  When the parsed file structure has no data row, \<open>Decode\<close> fails with the
  empty-input error, so it returns no timeline; when it has a data row, \<open>Decode\<close> does not
  fail with that error (it may fail with another one, for a row that does not convert);
  and when the scanner fails, the error is the parse error, not the empty-input error.
\<close>

theorem Decode_EmptyInput:
  "(parseALE lines scanErr = Inr f \<and> Rows f = [] \<longrightarrow> Decode lib d lines scanErr = Inl EmptyInput)
   \<and> (parseALE lines scanErr = Inr f \<and> Rows f \<noteq> [] \<longrightarrow> Decode lib d lines scanErr \<noteq> Inl EmptyInput)
   \<and> (\<forall>e. parseALE lines scanErr = Inl e \<longrightarrow> Decode lib d lines scanErr \<noteq> Inl EmptyInput)"
  by (auto simp: Decode_def aleToTimeline_EmptyInput split: sum.splits)

theorem Decode_EmptyInput_witness:
  "Decode ndfLib NewDecoder [''Heading'', ''Column'', joinTabs [''Name'', ''Duration''], ''Data''] False = Inl EmptyInput
   \<and> Decode ndfLib NewDecoder [''Heading'', ''Column'', joinTabs [''Name'', ''Duration''], ''Data'', joinTabs [''Clip001'', ''100'']] False
       \<noteq> Inl EmptyInput"
proof -
  let ?f0 = "\<lparr>Headers = [], Columns = [''Name'', ''Duration''], Rows = []\<rparr>"
  let ?f1 = "\<lparr>Headers = [], Columns = [''Name'', ''Duration''],
               Rows = [[(''Name'', ''Clip001''), (''Duration'', ''100'')]]\<rparr>"
  have p0: "parseALE [''Heading'', ''Column'', joinTabs [''Name'', ''Duration''], ''Data''] False = Inr ?f0"
    by code_simp
  have p1: "parseALE [''Heading'', ''Column'', joinTabs [''Name'', ''Duration''], ''Data'', joinTabs [''Clip001'', ''100'']] False = Inr ?f1"
    by code_simp
  show ?thesis
    using Decode_EmptyInput [of "[''Heading'', ''Column'', joinTabs [''Name'', ''Duration''], ''Data'']" False ?f0 ndfLib NewDecoder]
      Decode_EmptyInput [of "[''Heading'', ''Column'', joinTabs [''Name'', ''Duration''], ''Data'', joinTabs [''Clip001'', ''100'']]" False ?f1 ndfLib NewDecoder]
      p0 p1
    by simp
qed

section \<open>Properties of the floating-point rounding\<close>

declare bitLength.simps [simp del] scaleUp.simps [simp del]



lemma bitLength_nonneg: "0 \<le> bitLength n"
proof (induction n rule: bitLength.induct)
  case (1 n)
  then show ?case using bitLength.simps [of n] by (cases "n \<le> 0") simp_all
qed

lemma bitLength_lower: "2 ^ j \<le> n \<Longrightarrow> int j + 1 \<le> bitLength n"
proof (induction j arbitrary: n)
  case 0
  then show ?case using bitLength.simps [of n] bitLength_nonneg [of "n div 2"] by simp
next
  case (Suc j)
  then have "2 ^ j \<le> n div 2" by simp
  moreover have "(0::int) < 2 ^ Suc j" by simp
  with Suc.prems have "0 < n" by linarith
  ultimately show ?case
    using Suc.IH [of "n div 2"] bitLength.simps [of n] by simp
qed



lemma pow2_powi: "pow2 e = 2 powi e"
  by (simp add: pow2_def power_int_def field_simps)


lemma pow2_add: "pow2 (a + b) = pow2 a * pow2 b"
  by (simp add: pow2_powi power_int_add)

lemma pow2_nat: "0 \<le> e \<Longrightarrow> pow2 e = of_int (2 ^ nat e)"
  by (simp add: pow2_def)

lemma exponent64_large:
  assumes "2 ^ j \<le> \<bar>x\<bar>"
  shows "int j - 52 \<le> exponent64 x"
proof -
  have "(1::real) \<le> 2 ^ j" by simp
  with assms have o: "1 \<le> \<bar>x\<bar>" by linarith
  have "real_of_int (2 ^ j) \<le> \<bar>x\<bar>" using assms by simp
  then have "2 ^ j \<le> \<lfloor>\<bar>x\<bar>\<rfloor>" by (simp only: le_floor_iff)
  from bitLength_lower [OF this] o show ?thesis by (simp add: exponent64_def)
qed


lemma Float64_grid:
  assumes "Float64 x = x" "2 ^ j \<le> \<bar>x\<bar>"
  shows "\<exists>k::int. x = of_int k * pow2 (int j - 52)"
proof -
  define e where "e = exponent64 x"
  define m where "m = roundHalfEven (x / pow2 e)"
  have x: "x = of_int m * pow2 e"
    using assms(1) by (simp add: Float64_def e_def m_def)
  have le: "0 \<le> e - (int j - 52)"
    using exponent64_large [OF assms(2)] by (simp add: e_def)
  have "pow2 e = pow2 (e - (int j - 52)) * pow2 (int j - 52)"
    by (simp add: pow2_add [symmetric])
  also have "pow2 (e - (int j - 52)) = of_int (2 ^ nat (e - (int j - 52)))"
    by (rule pow2_nat [OF le])
  finally have "x = of_int (m * 2 ^ nat (e - (int j - 52))) * pow2 (int j - 52)"
    using x by simp
  then show ?thesis by blast
qed






lemma Float64_2996: "Float64 29.96 = 4216495151125627 / 140737488355328"
  by code_simp

lemma Float64_2997: "Float64 29.97 = 1054475631502295 / 35184372088832"
  by code_simp

lemma Float64_2998: "Float64 29.98 = 8438619801785467 / 281474976710656"
  by code_simp

lemma Float64_5993: "Float64 59.93 = 8434397677134807 / 140737488355328"
  by code_simp

lemma Float64_5994: "Float64 59.94 = 1054475631502295 / 17592186044416"
  by code_simp

lemma Float64_5995: "Float64 59.95 = 4218606213450957 / 70368744177664"
  by code_simp

lemma grid_gt: "0 < n \<Longrightarrow> (q < real_of_int k / n) = (\<lfloor>q * n\<rfloor> < k)"
  by (simp add: floor_less_iff pos_less_divide_eq)

lemma grid_lt: "0 < n \<Longrightarrow> (real_of_int k / n < q) = (k < \<lceil>q * n\<rceil>)"
  by (simp add: less_ceiling_iff pos_divide_less_eq)

lemma Float64_grid48:
  assumes "isFloat64 x" "16 \<le> x"
  shows "\<exists>k::int. x = of_int k / 281474976710656"
proof -
  from assms have "Float64 x = x" "2 ^ 4 \<le> \<bar>x\<bar>" by (simp_all add: isFloat64_def)
  from Float64_grid [OF this] obtain k :: int where "x = of_int k * pow2 (int 4 - 52)" by blast
  then have "x = of_int k / 281474976710656" by (simp add: pow2_def)
  then show ?thesis by blast
qed

lemma isDropFrame_float:
  assumes "isFloat64 x"
  shows "isDropFrame x \<longleftrightarrow> (\<bar>x - 29.97\<bar> < 0.01 \<or> \<bar>x - 59.94\<bar> < 0.01) \<and> x \<noteq> Float64 29.96"
proof (cases "16 \<le> x")
  case False
  then show ?thesis
    unfolding isDropFrame_def Float64_2996 Float64_2998 Float64_5993 Float64_5995 by (simp add: abs_less_iff)
next
  case True
  from Float64_grid48 [OF assms True] obtain k :: int where k: "x = of_int k / 281474976710656"
    by blast
  have n: "(0::real) < 281474976710656" by simp
  have t: "(\<bar>x - 29.97\<bar> < 0.01 \<or> \<bar>x - 59.94\<bar> < 0.01) \<longleftrightarrow>
           (29.96 < x \<and> x < 29.98) \<or> (59.93 < x \<and> x < 59.95)"
    by (simp add: abs_less_iff) argo
  have a: "(29.96 < x) = (8432990302251253 < k)" "(x < 29.98) = (k < 8438619801785467)"
    "(59.93 < x) = (16868795354269614 < k)" "(x < 59.95) = (k < 16874424853803828)"
    unfolding k grid_gt [OF n] grid_lt [OF n] by simp_all
  have b: "(Float64 29.96 < x) = (8432990302251254 < k)" "(x < Float64 29.98) = (k < 8438619801785467)"
    "(Float64 59.93 < x) = (16868795354269614 < k)" "(x < Float64 59.95) = (k < 16874424853803828)"
    unfolding Float64_2996 Float64_2998 Float64_5993 Float64_5995 k grid_gt [OF n] grid_lt [OF n] by simp_all
  have c: "(x = Float64 29.96) = (k = 8432990302251254)"
    unfolding Float64_2996 k by (simp add: field_simps)
  show ?thesis
    unfolding t isDropFrame_def a b c by linarith
qed

section \<open>The drop-frame rates\<close>

text \<open>
  The rate a header \<open>FPS 29.96\<close> gives is the \<open>float64\<close> nearest to 29.96.  It lies above
  29.96, so it differs from 29.97 by less than 0.01; but it is the very number the code
  compares with, and the comparison is strict: the predicate does not hold of it, and the
  decoder does not set the drop-frame flag.
\<close>

theorem boundary_rate_counterexample:
  "isFloat64 (Float64 29.96) \<and> \<bar>Float64 29.96 - 29.97\<bar> < 0.01 \<and> \<not> isDropFrame (Float64 29.96)
   \<and> parseFPS ndfLib ''29.96'' = Inr (Float64 29.96)
   \<and> dropFrame (applyHeaderFPS ndfLib NewDecoder
        \<lparr>Headers = [(''FPS'', ''29.96'')], Columns = [''Name''], Rows = [[(''Name'', ''A'')]]\<rparr>) = False"
proof -
  have a: "isFloat64 (Float64 29.96)" by code_simp
  have b: "\<bar>Float64 29.96 - 29.97\<bar> < 0.01" unfolding Float64_2996 by simp
  have c: "\<not> isDropFrame (Float64 29.96)"
    unfolding isDropFrame_def Float64_2996 Float64_2998 Float64_5993 Float64_5995 by simp
  have d: "parseFPS ndfLib ''29.96'' = Inr (Float64 29.96)" by code_simp
  have "dropFrame (applyHeaderFPS ndfLib NewDecoder
        \<lparr>Headers = [(''FPS'', ''29.96'')], Columns = [''Name''], Rows = [[(''Name'', ''A'')]]\<rparr>) = False"
    using c d by (simp add: applyHeaderFPS_def HeaderFPS_def)
  with a b c d show ?thesis by simp
qed

text \<open>
  Claim C7.  \<open>isDropFrame\<close> holds of exactly the rates strictly between the \<open>float64\<close>s
  nearest to 29.96 and to 29.98, or nearest to 59.93 and to 59.95.  For a \<open>float64\<close> rate
  this is: the rate differs by less than 0.01 from 29.97 or from 59.94, and it is not the
  \<open>float64\<close> nearest to 29.96 (the one \<open>float64\<close> within the tolerance of which the predicate
  does not hold).  It holds of the rates 29.97 and 59.94 and not of 24, 25, 30 and 60.  When
  the parsed file has an \<open>FPS\<close> header that \<open>parseFPS\<close> accepts with the rate \<open>v\<close>, \<open>Decode\<close>
  goes on with the rate \<open>v\<close> and the drop-frame flag \<open>isDropFrame v\<close>, whatever the decoder
  was configured with.
\<close>

theorem isDropFrame_float64_tolerance:
  "(isFloat64 x \<longrightarrow>
      (isDropFrame x \<longleftrightarrow> (\<bar>x - 29.97\<bar> < 0.01 \<or> \<bar>x - 59.94\<bar> < 0.01) \<and> x \<noteq> Float64 29.96))
   \<and> isDropFrame (Float64 29.97) \<and> isDropFrame (Float64 59.94)
   \<and> \<not> isDropFrame 24 \<and> \<not> isDropFrame 25 \<and> \<not> isDropFrame 30 \<and> \<not> isDropFrame 60
   \<and> (parseALE lines scanErr = Inr f \<and> map_of (Headers f) HeaderFPS = Some s \<and> parseFPS lib s = Inr v \<longrightarrow>
        dropFrame (applyHeaderFPS lib d f) = isDropFrame v
        \<and> fps (applyHeaderFPS lib d f) = v
        \<and> Decode lib d lines scanErr = aleToTimeline lib (d\<lparr>fps := v, dropFrame := isDropFrame v\<rparr>) f)"
proof -
  have "isFloat64 x \<longrightarrow>
      (isDropFrame x \<longleftrightarrow> (\<bar>x - 29.97\<bar> < 0.01 \<or> \<bar>x - 59.94\<bar> < 0.01) \<and> x \<noteq> Float64 29.96)"
    using isDropFrame_float [of x] by blast
  moreover have "isDropFrame (Float64 29.97)"
    unfolding isDropFrame_def Float64_2996 Float64_2997 Float64_2998 Float64_5993 Float64_5995
    by simp
  moreover have "isDropFrame (Float64 59.94)"
    unfolding isDropFrame_def Float64_2996 Float64_5994 Float64_2998 Float64_5993 Float64_5995
    by simp
  moreover have "\<not> isDropFrame 24 \<and> \<not> isDropFrame 25 \<and> \<not> isDropFrame 30 \<and> \<not> isDropFrame 60"
    unfolding isDropFrame_def Float64_2996 Float64_2998 Float64_5993 Float64_5995 by simp
  moreover have "parseALE lines scanErr = Inr f \<and> map_of (Headers f) HeaderFPS = Some s \<and> parseFPS lib s = Inr v \<longrightarrow>
        dropFrame (applyHeaderFPS lib d f) = isDropFrame v
        \<and> fps (applyHeaderFPS lib d f) = v
        \<and> Decode lib d lines scanErr = aleToTimeline lib (d\<lparr>fps := v, dropFrame := isDropFrame v\<rparr>) f"
    by (simp add: applyHeaderFPS_def Decode_def)
  ultimately show ?thesis by blast
qed

theorem isDropFrame_float64_tolerance_witness:
  "isFloat64 (Float64 29.97) \<and> \<bar>Float64 29.97 - 29.97\<bar> < 0.01 \<and> isDropFrame (Float64 29.97)
   \<and> dropFrame (applyHeaderFPS ndfLib NewDecoder
      \<lparr>Headers = [(''FPS'', ''29.97'')], Columns = [''Name''], Rows = [[(''Name'', ''A'')]]\<rparr>) = True
   \<and> dropFrame (applyHeaderFPS ndfLib NewDecoder
      \<lparr>Headers = [(''FPS'', ''24.00'')], Columns = [''Name''], Rows = [[(''Name'', ''A'')]]\<rparr>) = False"
proof -
  let ?l1 = "[''Heading'', joinTabs [''FPS'', ''29.97''], ''Column'', ''Name'', ''Data'', ''A'']"
  let ?f1 = "\<lparr>Headers = [(''FPS'', ''29.97'')], Columns = [''Name''], Rows = [[(''Name'', ''A'')]]\<rparr>"
  let ?l2 = "[''Heading'', joinTabs [''FPS'', ''24.00''], ''Column'', ''Name'', ''Data'', ''A'']"
  let ?f2 = "\<lparr>Headers = [(''FPS'', ''24.00'')], Columns = [''Name''], Rows = [[(''Name'', ''A'')]]\<rparr>"
  have a1: "parseALE ?l1 False = Inr ?f1" by code_simp
  have b1: "map_of (Headers ?f1) HeaderFPS = Some ''29.97''" by (simp add: HeaderFPS_def)
  have c1: "parseFPS ndfLib ''29.97'' = Inr (Float64 29.97)" by code_simp
  have a2: "parseALE ?l2 False = Inr ?f2" by code_simp
  have b2: "map_of (Headers ?f2) HeaderFPS = Some ''24.00''" by (simp add: HeaderFPS_def)
  have c2: "parseFPS ndfLib ''24.00'' = Inr 24" by code_simp
  have fl: "isFloat64 (Float64 29.97)" by code_simp
  have tol: "\<bar>Float64 29.97 - 29.97\<bar> < 0.01" unfolding Float64_2997 by simp
  have ne: "Float64 29.97 \<noteq> Float64 29.96" unfolding Float64_2997 Float64_2996 by simp
  note t1 = isDropFrame_float64_tolerance
    [of "Float64 29.97" ?l1 False ?f1 "''29.97''" ndfLib "Float64 29.97" NewDecoder]
  note t2 = isDropFrame_float64_tolerance
    [of "Float64 29.97" ?l2 False ?f2 "''24.00''" ndfLib 24 NewDecoder]
  from t1 fl tol ne have d1: "isDropFrame (Float64 29.97)" by blast
  from t1 a1 b1 c1
  have e1: "dropFrame (applyHeaderFPS ndfLib NewDecoder ?f1) = isDropFrame (Float64 29.97)" by blast
  from t2 a2 b2 c2
  have e2: "dropFrame (applyHeaderFPS ndfLib NewDecoder ?f2) = isDropFrame 24" by blast
  from t2 have "\<not> isDropFrame 24" by blast
  with d1 e1 e2 fl tol show ?thesis by simp
qed

section \<open>Malformed colour decision lists\<close>

text \<open>
  An \<open>ASC_SOP\<close> cell with three numbers: \<open>parseASCSOP\<close> reports the error, and \<open>rowToClip\<close>
  returns a clip without an error and without CDL metadata.
\<close>

theorem malformed_SOP_counterexample:
  "parseASCSOP ndfLib ''(1 2 3)'' = Inl (InvalidCDL ''(1 2 3)'')
   \<and> rowToClip ndfLib NewDecoder [(''Name'', ''A''), (''ASC_SOP'', ''(1 2 3)'')] 0 =
       Inr \<lparr>Name = ''A'', MediaRef = Some (MissingReference ''A'' None), SourceRange = None,
            Metadata = \<lparr>ALE = None, cdl = None\<rparr>\<rparr>"
  by code_simp

lemma rowSourceRange_error:
  "rowSourceRange lib d row = Inl e \<Longrightarrow>
     (\<exists>s e'. e = InvalidStart s e') \<or> (\<exists>s e'. e = InvalidEnd s e') \<or> (\<exists>s e'. e = InvalidDuration s e')"
  by (auto simp: rowSourceRange_def Let_def split: if_splits sum.splits)

text \<open>
  Claim C3, as the code has it.  \<open>parseASCCDL\<close> never returns an error, and no error of
  \<open>rowToClip\<close> is a CDL error.  For a row whose \<open>ASC_SOP\<close> cell is not empty and is rejected by
  \<open>parseASCSOP\<close>, and whose time fields convert, \<open>rowToClip\<close> returns a clip; its CDL
  metadata is absent when the \<open>ASC_SAT\<close> cell is empty or is not a number, and otherwise
  holds the saturation alone.
\<close>

theorem CDL_errors_dropped:
  "(\<exists>r. parseASCCDL lib ascSOP ascSat = Inr r)
   \<and> rowToClip lib d row i \<noteq> Inl (InvalidCDL x)
   \<and> (get row ''ASC_SOP'' \<noteq> [] \<and> parseASCSOP lib (get row ''ASC_SOP'') = Inl e
        \<and> rowSourceRange lib d row = Inr sr \<longrightarrow>
       (\<exists>c. rowToClip lib d row i = Inr c
          \<and> cdl (Metadata c) =
              (if get row ''ASC_SAT'' = [] then None
               else case ParseFloat lib (TrimSpace (get row ''ASC_SAT'')) of
                      None \<Rightarrow> None
                    | Some v \<Rightarrow> Some \<lparr>ASCSOP = None, ASCSat = Some v\<rparr>)))"
proof -
  have "\<exists>r. parseASCCDL lib ascSOP ascSat = Inr r"
    by (simp add: parseASCCDL_def Let_def)
  moreover have "rowToClip lib d row i \<noteq> Inl (InvalidCDL x)"
    by (auto simp: rowToClip_def Let_def split: sum.splits dest: rowSourceRange_error)
  moreover have "get row ''ASC_SOP'' \<noteq> [] \<and> parseASCSOP lib (get row ''ASC_SOP'') = Inl e
        \<and> rowSourceRange lib d row = Inr sr \<longrightarrow>
       (\<exists>c. rowToClip lib d row i = Inr c
          \<and> cdl (Metadata c) =
              (if get row ''ASC_SAT'' = [] then None
               else case ParseFloat lib (TrimSpace (get row ''ASC_SAT'')) of
                      None \<Rightarrow> None
                    | Some v \<Rightarrow> Some \<lparr>ASCSOP = None, ASCSat = Some v\<rparr>))"
    by (auto simp: rowToClip_def rowMetadata_def parseASCCDL_def Let_def split: option.splits)
  ultimately show ?thesis by blast
qed

theorem CDL_errors_dropped_witness:
  "\<exists>c. rowToClip ndfLib NewDecoder [(''Name'', ''A''), (''ASC_SOP'', ''(1 2 x)''), (''ASC_SAT'', ''0.9'')] 0 = Inr c
     \<and> cdl (Metadata c) = Some \<lparr>ASCSOP = None, ASCSat = Some (Float64 0.9)\<rparr>"
proof -
  let ?row = "[(''Name'', ''A''), (''ASC_SOP'', ''(1 2 x)''), (''ASC_SAT'', ''0.9'')]"
  have a: "get ?row ''ASC_SOP'' \<noteq> []" by (simp add: get_def)
  have b: "parseASCSOP ndfLib (get ?row ''ASC_SOP'') = Inl (InvalidCDL ''(1 2 x)'')" by code_simp
  have c: "rowSourceRange ndfLib NewDecoder ?row = Inr None" by code_simp
  have d: "get ?row ''ASC_SAT'' = ''0.9''" by (simp add: get_def)
  have e: "ParseFloat ndfLib (TrimSpace ''0.9'') = Some (Float64 0.9)" by code_simp
  show ?thesis
    using CDL_errors_dropped [of ndfLib "[]" "[]" NewDecoder ?row 0 "[]" "InvalidCDL ''(1 2 x)''" None]
      a b c d e
    by simp
qed

section \<open>The duration of a decoded clip\<close>

text \<open>
  Two rows of an input at 24 frames per second, decoded with \<open>ndfLib\<close>: one whose \<open>End\<close> is
  five seconds before its \<open>Start\<close>, and one whose \<open>Duration\<close> is \<open>-5\<close>.  Both get a source
  range, with the durations -120 and -5 frames.
\<close>

theorem negative_duration_counterexample:
  "rowToClip ndfLib NewDecoder
     [(''Name'', ''A''), (''Start'', ''00:00:10:00''), (''End'', ''00:00:05:00'')] 0 =
     Inr \<lparr>Name = ''A'',
          MediaRef = Some (MissingReference ''A''
            (Some \<lparr>start_time = \<lparr>rt_value = 240, rt_rate = 24\<rparr>,
                   duration = \<lparr>rt_value = - 120, rt_rate = 24\<rparr>\<rparr>)),
          SourceRange = Some \<lparr>start_time = \<lparr>rt_value = 240, rt_rate = 24\<rparr>,
                               duration = \<lparr>rt_value = - 120, rt_rate = 24\<rparr>\<rparr>,
          Metadata = \<lparr>ALE = None, cdl = None\<rparr>\<rparr>
   \<and> rowToClip ndfLib NewDecoder [(''Name'', ''B''), (''Duration'', ''-5'')] 1 =
     Inr \<lparr>Name = ''B'',
          MediaRef = Some (MissingReference ''B''
            (Some \<lparr>start_time = \<lparr>rt_value = 0, rt_rate = 24\<rparr>,
                   duration = \<lparr>rt_value = - 5, rt_rate = 24\<rparr>\<rparr>)),
          SourceRange = Some \<lparr>start_time = \<lparr>rt_value = 0, rt_rate = 24\<rparr>,
                               duration = \<lparr>rt_value = - 5, rt_rate = 24\<rparr>\<rparr>,
          Metadata = \<lparr>ALE = None, cdl = None\<rparr>\<rparr>"
  by code_simp

text \<open>
  Claim C5, as the code has it.  \<open>rowToClip\<close> does not clamp the duration.  For a clip
  decoded with a source range from a row with both \<open>Start\<close> and \<open>End\<close>, the range starts at
  the parsed \<open>Start\<close> and its duration is what the library's \<open>DurationFromStartEndTime\<close>
  returns for the parsed \<open>Start\<close> and \<open>End\<close>; when that is the difference of the two values,
  the duration is non-negative exactly when \<open>End\<close> is not earlier than \<open>Start\<close>.  For any
  other row the duration is the value of the \<open>Duration\<close> cell, read as a frame number or
  else as a time code, whatever its sign.
\<close>

theorem duration_not_clamped:
  "rowToClip lib d row i = Inr c \<and> SourceRange c = Some r \<longrightarrow>
     (if get row ColumnStart \<noteq> [] \<and> get row ColumnEnd \<noteq> [] then
        (\<exists>s e. parseTimecode lib (get row ColumnStart) (fps d) = Inr s
             \<and> parseTimecode lib (get row ColumnEnd) (fps d) = Inr e
             \<and> start_time r = s
             \<and> duration r = DurationFromStartEndTime lib s e
             \<and> (rt_value (DurationFromStartEndTime lib s e) = rt_value e - rt_value s \<longrightarrow>
                  (0 \<le> rt_value (duration r) \<longleftrightarrow> rt_value s \<le> rt_value e)))
      else get row ColumnDuration \<noteq> []
           \<and> (parseFrameNumber lib (get row ColumnDuration) (fps d) = Inr (duration r)
              \<or> (\<exists>e. parseFrameNumber lib (get row ColumnDuration) (fps d) = Inl e)
                 \<and> parseTimecode lib (get row ColumnDuration) (fps d) = Inr (duration r)))"
proof (intro impI, elim conjE)
  assume c: "rowToClip lib d row i = Inr c" and r: "SourceRange c = Some r"
  from c r have sr: "rowSourceRange lib d row = Inr (Some r)"
    by (auto simp: rowToClip_def Let_def split: sum.splits)
  show "if get row ColumnStart \<noteq> [] \<and> get row ColumnEnd \<noteq> [] then
        (\<exists>s e. parseTimecode lib (get row ColumnStart) (fps d) = Inr s
             \<and> parseTimecode lib (get row ColumnEnd) (fps d) = Inr e
             \<and> start_time r = s
             \<and> duration r = DurationFromStartEndTime lib s e
             \<and> (rt_value (DurationFromStartEndTime lib s e) = rt_value e - rt_value s \<longrightarrow>
                  (0 \<le> rt_value (duration r) \<longleftrightarrow> rt_value s \<le> rt_value e)))
      else get row ColumnDuration \<noteq> []
           \<and> (parseFrameNumber lib (get row ColumnDuration) (fps d) = Inr (duration r)
              \<or> (\<exists>e. parseFrameNumber lib (get row ColumnDuration) (fps d) = Inl e)
                 \<and> parseTimecode lib (get row ColumnDuration) (fps d) = Inr (duration r))"
  proof (cases "get row ColumnStart \<noteq> [] \<and> get row ColumnEnd \<noteq> []")
    case True
    with sr show ?thesis
      by (auto simp: rowSourceRange_def Let_def NewTimeRange_def split: sum.splits)
  next
    case False
    with sr show ?thesis
      by (auto simp: rowSourceRange_def Let_def NewTimeRange_def split: sum.splits if_splits)
  qed
qed

theorem duration_not_clamped_witness:
  "rowToClip ndfLib NewDecoder
       [(''Name'', ''A''), (''Start'', ''00:00:10:00''), (''End'', ''00:00:15:00'')] 0 =
     Inr \<lparr>Name = ''A'',
          MediaRef = Some (MissingReference ''A''
            (Some \<lparr>start_time = \<lparr>rt_value = 240, rt_rate = 24\<rparr>,
                   duration = \<lparr>rt_value = 120, rt_rate = 24\<rparr>\<rparr>)),
          SourceRange = Some \<lparr>start_time = \<lparr>rt_value = 240, rt_rate = 24\<rparr>,
                               duration = \<lparr>rt_value = 120, rt_rate = 24\<rparr>\<rparr>,
          Metadata = \<lparr>ALE = None, cdl = None\<rparr>\<rparr>
   \<and> (\<exists>s e. parseTimecode ndfLib ''00:00:10:00'' 24 = Inr s
          \<and> parseTimecode ndfLib ''00:00:15:00'' 24 = Inr e
          \<and> DurationFromStartEndTime ndfLib s e = \<lparr>rt_value = 120, rt_rate = 24\<rparr>
          \<and> rt_value s \<le> rt_value e)"
proof -
  let ?row = "[(''Name'', ''A''), (''Start'', ''00:00:10:00''), (''End'', ''00:00:15:00'')]"
  let ?r = "\<lparr>start_time = \<lparr>rt_value = 240, rt_rate = 24\<rparr>, duration = \<lparr>rt_value = 120, rt_rate = 24\<rparr>\<rparr>"
  let ?c = "\<lparr>Name = ''A'', MediaRef = Some (MissingReference ''A'' (Some ?r)),
          SourceRange = Some ?r, Metadata = \<lparr>ALE = None, cdl = None\<rparr>\<rparr>"
  have a: "rowToClip ndfLib NewDecoder ?row 0 = Inr ?c" by code_simp
  have b: "SourceRange ?c = Some ?r" by simp
  have g: "get ?row ColumnStart = ''00:00:10:00''" "get ?row ColumnEnd = ''00:00:15:00''"
    by (simp_all add: get_def ColumnStart_def ColumnEnd_def)
  have f: "fps NewDecoder = 24" by (simp add: NewDecoder_def DefaultFPS_def)
  have d: "rt_value (DurationFromStartEndTime ndfLib s e) = rt_value e - rt_value s"
    if "rt_rate s = rt_rate e" "rt_rate e \<noteq> 0" for s e
    using that by (simp add: ndfLib_def)
  from a b have h: "rowToClip ndfLib NewDecoder ?row 0 = Inr ?c \<and> SourceRange ?c = Some ?r"
    by (rule conjI)
  have "if get ?row ColumnStart \<noteq> [] \<and> get ?row ColumnEnd \<noteq> [] then
        (\<exists>s e. parseTimecode ndfLib (get ?row ColumnStart) (fps NewDecoder) = Inr s
             \<and> parseTimecode ndfLib (get ?row ColumnEnd) (fps NewDecoder) = Inr e
             \<and> start_time ?r = s
             \<and> duration ?r = DurationFromStartEndTime ndfLib s e
             \<and> (rt_value (DurationFromStartEndTime ndfLib s e) = rt_value e - rt_value s \<longrightarrow>
                  (0 \<le> rt_value (duration ?r) \<longleftrightarrow> rt_value s \<le> rt_value e)))
      else get ?row ColumnDuration \<noteq> []
           \<and> (parseFrameNumber ndfLib (get ?row ColumnDuration) (fps NewDecoder) = Inr (duration ?r)
              \<or> (\<exists>e. parseFrameNumber ndfLib (get ?row ColumnDuration) (fps NewDecoder) = Inl e)
                 \<and> parseTimecode ndfLib (get ?row ColumnDuration) (fps NewDecoder) = Inr (duration ?r))"
    by (rule mp [OF duration_not_clamped h])
  then obtain s e where se: "parseTimecode ndfLib ''00:00:10:00'' 24 = Inr s"
      "parseTimecode ndfLib ''00:00:15:00'' 24 = Inr e"
      "start_time ?r = s" "duration ?r = DurationFromStartEndTime ndfLib s e"
      "rt_value (DurationFromStartEndTime ndfLib s e) = rt_value e - rt_value s \<longrightarrow>
                  (0 \<le> rt_value (duration ?r) \<longleftrightarrow> rt_value s \<le> rt_value e)"
    unfolding g f by auto
  have e: "parseTimecode ndfLib ''00:00:15:00'' 24 = Inr \<lparr>rt_value = 360, rt_rate = 24\<rparr>"
    by code_simp
  with se(2) have ev: "e = \<lparr>rt_value = 360, rt_rate = 24\<rparr>" by simp
  from se(3) have sv: "s = \<lparr>rt_value = 240, rt_rate = 24\<rparr>" by simp
  have "rt_value s \<le> rt_value e" using se(5) d [of s e] ev sv by simp
  moreover have "DurationFromStartEndTime ndfLib s e = \<lparr>rt_value = 120, rt_rate = 24\<rparr>"
    using se(4) by simp
  ultimately show ?thesis using a se(1,2) by blast
qed

section \<open>Properties of the section parser\<close>

lemma marker_exclusive:
  "HasPrefix t HeaderColumn \<Longrightarrow> \<not> HasPrefix t HeaderHeading"
  "HasPrefix t HeaderData \<Longrightarrow> \<not> HasPrefix t HeaderHeading"
  "HasPrefix t HeaderData \<Longrightarrow> \<not> HasPrefix t HeaderColumn"
  "HasPrefix t HeaderHeading \<Longrightarrow> t \<noteq> []"
  "HasPrefix t HeaderColumn \<Longrightarrow> t \<noteq> []"
  "HasPrefix t HeaderData \<Longrightarrow> t \<noteq> []"
  by (auto simp: HasPrefix_def HeaderColumn_def HeaderHeading_def HeaderData_def prefix_def)

lemma fillRow_keys:
  "fst ` set (fillRow cols vs i row) = fst ` set row \<union> set cols"
  by (induction cols arbitrary: i row) (auto simp: dom_update image_iff)

lemma fillRow_distinct:
  "distinct (map fst row) \<Longrightarrow> distinct (map fst (fillRow cols vs i row))"
  by (induction cols arbitrary: i row) (auto simp: distinct_update)

lemma fillRow_other:
  "k \<notin> set cols \<Longrightarrow> map_of (fillRow cols vs i row) k = map_of row k"
  by (induction cols arbitrary: i row) (auto simp: update_conv')

lemma fillRow_at:
  "j < length cols \<Longrightarrow> cols ! j \<notin> set (drop (Suc j) cols) \<Longrightarrow>
     map_of (fillRow cols vs i row) (cols ! j) = Some (cell vs (i + j))"
proof (induction cols arbitrary: i j row)
  case Nil
  then show ?case by simp
next
  case (Cons c cols)
  show ?case
  proof (cases j)
    case 0
    with Cons.prems have "c \<notin> set cols" by simp
    then have "map_of (fillRow cols vs (Suc i) (AList.update c (cell vs i) row)) c = Some (cell vs i)"
      by (simp add: fillRow_other update_conv')
    with 0 show ?thesis by (simp add: cell_def)
  next
    case (Suc j')
    with Cons.prems have "j' < length cols" "cols ! j' \<notin> set (drop (Suc j') cols)" by simp_all
    from Cons.IH [OF this] Suc show ?thesis by simp
  qed
qed

lemma fillRow_values:
  "(k, v) \<in> set (fillRow cols vs i row) \<Longrightarrow>
     (k, v) \<in> set row \<or> (\<exists>j < length cols. cols ! j = k \<and> v = cell vs (i + j))"
proof (induction cols arbitrary: i row)
  case Nil
  then show ?case by simp
next
  case (Cons c cols)
  from Cons.prems have "(k, v) \<in> set (fillRow cols vs (Suc i) (AList.update c (cell vs i) row))"
    by (simp add: cell_def)
  from Cons.IH [OF this] show ?case
  proof
    assume "(k, v) \<in> set (AList.update c (cell vs i) row)"
    then have "(k, v) \<in> set row \<or> (k = c \<and> v = cell vs i)"
      by (induction row) (auto split: if_splits)
    then show ?thesis by auto
  next
    assume "\<exists>j<length cols. cols ! j = k \<and> v = cell vs (Suc i + j)"
    then obtain j where "j < length cols" "cols ! j = k" "v = cell vs (Suc i + j)" by blast
    then have "Suc j < length (c # cols) \<and> (c # cols) ! Suc j = k \<and> v = cell vs (i + Suc j)"
      by simp
    then show ?thesis by blast
  qed
qed

lemma fillRow_cong:
  "(\<And>j. j < length cols \<Longrightarrow> cell vs (i + j) = cell vs' (i + j)) \<Longrightarrow>
     fillRow cols vs i row = fillRow cols vs' i row"
proof (induction cols arbitrary: i row)
  case Nil
  then show ?case by simp
next
  case (Cons c cols)
  have "cell vs i = cell vs' i"
    using Cons.prems [of 0] by simp
  moreover have "fillRow cols vs (Suc i) r = fillRow cols vs' (Suc i) r" for r
  proof (rule Cons.IH)
    fix j assume "j < length cols"
    then show "cell vs (Suc i + j) = cell vs' (Suc i + j)"
      using Cons.prems [of "Suc j"] by simp
  qed
  ultimately show ?case by (simp add: cell_def)
qed

lemma fillRow_take:
  "fillRow cols vs 0 [] = fillRow cols (take (length cols) vs) 0 []"
  by (rule fillRow_cong) (simp add: cell_def)

lemma parseLine_blank: "TrimSpace line = [] \<Longrightarrow> parseLine st line nxt = (st, False)"
  by (simp add: parseLine_def)

lemma parseLine_heading:
  "HasPrefix (TrimSpace line) HeaderHeading \<Longrightarrow> parseLine st line nxt = (st\<lparr>inHeading := True\<rparr>, False)"
  by (simp add: parseLine_def marker_exclusive)

lemma parseLine_column:
  "columnMarker line \<Longrightarrow>
     parseLine st line (Some cl) =
       (st\<lparr>inHeading := False, columns := map TrimSpace (splitTabs cl),
           aleFile := (aleFile st)\<lparr>Columns := map TrimSpace (splitTabs cl)\<rparr>\<rparr>, True)"
  "columnMarker line \<Longrightarrow> parseLine st line None = (st\<lparr>inHeading := False\<rparr>, False)"
  by (simp_all add: parseLine_def columnMarker_def marker_exclusive Let_def)

lemma parseLine_data:
  "HasPrefix (TrimSpace line) HeaderData \<Longrightarrow> parseLine st line nxt = (st\<lparr>inData := True\<rparr>, False)"
  by (simp add: parseLine_def marker_exclusive)


lemma parseLine_not_column:
  assumes "\<not> columnMarker line"
  shows "snd (parseLine st line nxt) = False"
    and "parseLine st line nxt = parseLine st line None"
    and "columns (fst (parseLine st line nxt)) = columns st"
    and "Columns (aleFile (fst (parseLine st line nxt))) = Columns (aleFile st)"
    and "Rows (aleFile (fst (parseLine st line nxt))) = Rows (aleFile st)
         \<or> (columns st \<noteq> [] \<and>
            Rows (aleFile (fst (parseLine st line nxt))) =
              Rows (aleFile st) @ [fillRow (columns st) (splitTabs line) 0 []])"
  using assms by (simp_all add: parseLine_def columnMarker_def Let_def)

lemma splitTabs_nonempty: "splitTabs s \<noteq> []"
  by (simp add: splitTabs_def Split_nonempty)

lemma parseLine_inv:
  assumes "parserInv L st" "line \<in> set L" "case nxt of None \<Rightarrow> True | Some cl \<Rightarrow> cl \<in> set L"
  shows "parserInv L (fst (parseLine st line nxt))"
proof (cases "columnMarker line")
  case True
  show ?thesis
  proof (cases nxt)
    case None
    with True assms(1) show ?thesis by (simp add: parseLine_column parserInv_def)
  next
    case (Some cl)
    with assms(3) have "cl \<in> set L" by simp
    with True Some assms(1) show ?thesis
      by (auto simp: parseLine_column parserInv_def splitTabs_nonempty)
  qed
next
  case False
  note nc = parseLine_not_column [OF False, of st nxt]
  from nc(5) show ?thesis
  proof
    assume "Rows (aleFile (fst (parseLine st line nxt))) = Rows (aleFile st)"
    with nc(3,4) assms(1) show ?thesis by (simp add: parserInv_def)
  next
    assume a: "columns st \<noteq> [] \<and>
            Rows (aleFile (fst (parseLine st line nxt))) =
              Rows (aleFile st) @ [fillRow (columns st) (splitTabs line) 0 []]"
    with assms(1) obtain cl where "cl \<in> set L" "columns st = map TrimSpace (splitTabs cl)"
      by (auto simp: parserInv_def)
    with assms(2) have "rowFrom L (fillRow (columns st) (splitTabs line) 0 [])"
      by (auto simp: rowFrom_def)
    with a nc(3,4) assms(1) show ?thesis by (auto simp: parserInv_def)
  qed
qed

lemma parseLoop_inv:
  "parserInv L st \<Longrightarrow> set lines \<subseteq> set L \<Longrightarrow> parserInv L (parseLoop st lines)"
proof (induction st lines rule: parseLoop.induct)
  case (1 st)
  then show ?case by simp
next
  case (2 st line rest)
  let ?nxt = "case rest of [] \<Rightarrow> None | l # x \<Rightarrow> Some l"
  obtain st' consumed where p: "parseLine st line ?nxt = (st', consumed)"
    by (cases "parseLine st line ?nxt")
  have "case ?nxt of None \<Rightarrow> True | Some cl \<Rightarrow> cl \<in> set L"
    using "2.prems"(2) by (cases rest) auto
  with "2.prems" have "parserInv L (fst (parseLine st line ?nxt))"
    by (intro parseLine_inv) auto
  with p have inv: "parserInv L st'" by simp
  have "set (if consumed then tl rest else rest) \<subseteq> set L"
    using "2.prems"(2) by (cases rest) auto
  from "2.IH" [OF p [symmetric] inv this] p show ?case by simp
qed

lemma parserInit_inv: "parserInv L parserInit"
  by (simp add: parserInv_def parserInit_def NewALEFile_def)

lemma parseLoop_append:
  "\<forall>l \<in> set pre. \<not> columnMarker l \<Longrightarrow> parseLoop st (pre @ rest) = parseLoop (parseLoop st pre) rest"
proof (induction pre arbitrary: st)
  case Nil
  then show ?case by simp
next
  case (Cons l pre)
  then have nc: "\<not> columnMarker l" by simp
  obtain st1 where st1: "parseLine st l None = (st1, False)"
    using parseLine_not_column(1) [OF nc, of st None] by (cases "parseLine st l None") auto
  have a: "parseLine st l nxt = (st1, False)" for nxt
    using parseLine_not_column(2) [OF nc, of st nxt] st1 by simp
  from Cons show ?case by (simp add: a)
qed

lemma parseLoop_no_column:
  "\<forall>l \<in> set ls. \<not> columnMarker l \<Longrightarrow>
     columns (parseLoop st ls) = columns st
     \<and> Columns (aleFile (parseLoop st ls)) = Columns (aleFile st)
     \<and> (\<forall>r \<in> set (Rows (aleFile (parseLoop st ls))).
           r \<in> set (Rows (aleFile st))
           \<or> (columns st \<noteq> [] \<and> (\<exists>l \<in> set ls. r = fillRow (columns st) (splitTabs l) 0 [])))"
proof (induction ls arbitrary: st)
  case Nil
  then show ?case by simp
next
  case (Cons l ls)
  then have nc: "\<not> columnMarker l" by simp
  obtain st1 where st1: "parseLine st l None = (st1, False)"
    using parseLine_not_column(1) [OF nc, of st None] by (cases "parseLine st l None") auto
  have a: "parseLine st l nxt = (st1, False)" for nxt
    using parseLine_not_column(2) [OF nc, of st nxt] st1 by simp
  then have step: "parseLoop st (l # ls) = parseLoop st1 ls" by simp
  have c1: "columns st1 = columns st" and c2: "Columns (aleFile st1) = Columns (aleFile st)"
    and c3: "Rows (aleFile st1) = Rows (aleFile st)
         \<or> (columns st \<noteq> [] \<and>
            Rows (aleFile st1) = Rows (aleFile st) @ [fillRow (columns st) (splitTabs l) 0 []])"
    using parseLine_not_column(3,4,5) [OF nc, of st None] st1 by simp_all
  from Cons have IH: "columns (parseLoop st1 ls) = columns st1
     \<and> Columns (aleFile (parseLoop st1 ls)) = Columns (aleFile st1)
     \<and> (\<forall>r \<in> set (Rows (aleFile (parseLoop st1 ls))).
           r \<in> set (Rows (aleFile st1))
           \<or> (columns st1 \<noteq> [] \<and> (\<exists>l \<in> set ls. r = fillRow (columns st1) (splitTabs l) 0 [])))"
    by simp
  show ?case
    unfolding step using IH c3 by (auto simp: c1 c2)
qed

section \<open>The mode switches of the section parser\<close>




section \<open>Rows and declared columns\<close>

text \<open>
  An input with two \<open>Column\<close> sections: the first row was read under the column list \<open>A\<close>,
  the file's column list is \<open>B\<close> in the end, and the first row has no entry for \<open>B\<close>.
\<close>

theorem redeclared_columns_counterexample:
  "parseALE [''Column'', ''A'', ''Data'', ''x'', ''Column'', ''B'', ''y''] False =
     Inr \<lparr>Headers = [], Columns = [''B''], Rows = [[(''A'', ''x'')], [(''B'', ''y'')]]\<rparr>
   \<and> map_of [(''A'', ''x'')] ''B'' = None"
  by code_simp

lemma parseALE_Inr:
  "parseALE lines scanErr = Inr f \<Longrightarrow> f = aleFile (parseLoop parserInit lines)"
  by (auto simp: parseALE_def Let_def split: if_splits)

lemma single_column_section:
  assumes "lines = pre @ m # cl # post" "columnMarker m"
    "\<forall>l \<in> set pre \<union> set post. \<not> columnMarker l"
  shows "Columns (aleFile (parseLoop parserInit lines)) = map TrimSpace (splitTabs cl)"
    and "\<forall>r \<in> set (Rows (aleFile (parseLoop parserInit lines))).
           \<exists>l \<in> set post. r = fillRow (map TrimSpace (splitTabs cl)) (splitTabs l) 0 []"
proof -
  let ?cols = "map TrimSpace (splitTabs cl)"
  let ?st0 = "parseLoop parserInit pre"
  let ?st1 = "?st0\<lparr>inHeading := False, columns := ?cols,
                   aleFile := (aleFile ?st0)\<lparr>Columns := ?cols\<rparr>\<rparr>"
  from assms(3) have pre: "\<forall>l \<in> set pre. \<not> columnMarker l" and post: "\<forall>l \<in> set post. \<not> columnMarker l"
    by auto
  have s0: "columns ?st0 = [] \<and> (\<forall>r \<in> set (Rows (aleFile ?st0)). False)"
    using parseLoop_no_column [OF pre, of parserInit]
    by (auto simp: parserInit_def NewALEFile_def)
  then have r0: "Rows (aleFile ?st0) = []" by (cases "Rows (aleFile ?st0)") auto
  have "parseLoop parserInit lines = parseLoop ?st0 (m # cl # post)"
    unfolding assms(1) by (rule parseLoop_append [OF pre])
  also have "\<dots> = parseLoop ?st1 post"
    by (simp add: parseLine_column(1) [OF assms(2)])
  finally have eq: "parseLoop parserInit lines = parseLoop ?st1 post" .
  note nc = parseLoop_no_column [OF post, of ?st1]
  from nc show "Columns (aleFile (parseLoop parserInit lines)) = ?cols"
    unfolding eq by simp
  from nc r0 show "\<forall>r \<in> set (Rows (aleFile (parseLoop parserInit lines))).
           \<exists>l \<in> set post. r = fillRow ?cols (splitTabs l) 0 []"
    unfolding eq by auto
qed

text \<open>
  Claim C4, as the code has it.  Every row of the parsed file was filled from the column
  list in force when its line was read, a list declared by a line of the input: the row
  has an entry for exactly the columns of that list.  Rows are collected only once a column
  has been declared.  When the input has one \<open>Column\<close> section (one line takes the \<open>Column\<close>
  branch), that list is the file's column list, so every row has an entry for every
  declared column.  A row gives the column at position \<open>j\<close> the trimmed field at position
  \<open>j\<close> of the data line, and the empty string when the line has no such field, provided the
  column's name does not occur again later in the list (of a repeated name the last
  occurrence is stored); the fields beyond the declared columns are ignored.
\<close>

theorem rows_cover_columns_in_force:
  assumes "parseALE lines scanErr = Inr f"
  shows "(\<forall>r \<in> set (Rows f). \<exists>cl \<in> set lines. \<exists>l \<in> set lines.
            r = fillRow (map TrimSpace (splitTabs cl)) (splitTabs l) 0 []
            \<and> fst ` set r = set (map TrimSpace (splitTabs cl)))
     \<and> (Rows f \<noteq> [] \<longrightarrow> Columns f \<noteq> [])
     \<and> (\<forall>pre m cl post.
           lines = pre @ m # cl # post \<and> columnMarker m
           \<and> (\<forall>l \<in> set pre \<union> set post. \<not> columnMarker l) \<longrightarrow>
           Columns f = map TrimSpace (splitTabs cl)
           \<and> (\<forall>r \<in> set (Rows f). fst ` set r = set (Columns f)
                 \<and> (\<exists>l \<in> set post. r = fillRow (Columns f) (splitTabs l) 0 [])))
     \<and> (\<forall>cols vs j. j < length cols \<and> cols ! j \<notin> set (drop (Suc j) cols) \<longrightarrow>
           map_of (fillRow cols vs 0 []) (cols ! j) =
             Some (if j < length vs then TrimSpace (vs ! j) else []))
     \<and> (\<forall>cols vs. fillRow cols vs 0 [] = fillRow cols (take (length cols) vs) 0 [])"
proof -
  from assms have f: "f = aleFile (parseLoop parserInit lines)" by (rule parseALE_Inr)
  have inv: "parserInv lines (parseLoop parserInit lines)"
    by (rule parseLoop_inv [OF parserInit_inv]) simp
  have 1: "\<forall>r \<in> set (Rows f). \<exists>cl \<in> set lines. \<exists>l \<in> set lines.
            r = fillRow (map TrimSpace (splitTabs cl)) (splitTabs l) 0 []
            \<and> fst ` set r = set (map TrimSpace (splitTabs cl))"
  proof
    fix r assume "r \<in> set (Rows f)"
    with inv f have "rowFrom lines r" by (simp add: parserInv_def)
    then obtain cl l where "cl \<in> set lines" "l \<in> set lines"
        "r = fillRow (map TrimSpace (splitTabs cl)) (splitTabs l) 0 []"
      by (auto simp: rowFrom_def)
    moreover from this have "fst ` set r = set (map TrimSpace (splitTabs cl))"
      by (simp add: fillRow_keys)
    ultimately show "\<exists>cl \<in> set lines. \<exists>l \<in> set lines.
            r = fillRow (map TrimSpace (splitTabs cl)) (splitTabs l) 0 []
            \<and> fst ` set r = set (map TrimSpace (splitTabs cl))"
      by blast
  qed
  have 2: "Rows f \<noteq> [] \<longrightarrow> Columns f \<noteq> []"
    using inv f by (simp add: parserInv_def)
  have 3: "\<forall>pre m cl post.
           lines = pre @ m # cl # post \<and> columnMarker m
           \<and> (\<forall>l \<in> set pre \<union> set post. \<not> columnMarker l) \<longrightarrow>
           Columns f = map TrimSpace (splitTabs cl)
           \<and> (\<forall>r \<in> set (Rows f). fst ` set r = set (Columns f)
                 \<and> (\<exists>l \<in> set post. r = fillRow (Columns f) (splitTabs l) 0 []))"
  proof (intro allI impI, elim conjE)
    fix pre m cl post
    assume a: "lines = pre @ m # cl # post" "columnMarker m"
      "\<forall>l \<in> set pre \<union> set post. \<not> columnMarker l"
    note s = single_column_section [OF a]
    from s(1) f have c: "Columns f = map TrimSpace (splitTabs cl)" by simp
    moreover have "\<forall>r \<in> set (Rows f). fst ` set r = set (Columns f)
                 \<and> (\<exists>l \<in> set post. r = fillRow (Columns f) (splitTabs l) 0 [])"
    proof
      fix r assume "r \<in> set (Rows f)"
      with s(2) f obtain l where l: "l \<in> set post" "r = fillRow (map TrimSpace (splitTabs cl)) (splitTabs l) 0 []"
        by auto
      then have "fst ` set r = set (map TrimSpace (splitTabs cl))"
        by (simp add: fillRow_keys)
      with l c show "fst ` set r = set (Columns f)
                 \<and> (\<exists>l \<in> set post. r = fillRow (Columns f) (splitTabs l) 0 [])"
        by auto
    qed
    ultimately show "Columns f = map TrimSpace (splitTabs cl)
           \<and> (\<forall>r \<in> set (Rows f). fst ` set r = set (Columns f)
                 \<and> (\<exists>l \<in> set post. r = fillRow (Columns f) (splitTabs l) 0 []))"
      by simp
  qed
  have 4: "\<forall>cols vs j. j < length cols \<and> cols ! j \<notin> set (drop (Suc j) cols) \<longrightarrow>
           map_of (fillRow cols vs 0 []) (cols ! j) =
             Some (if j < length vs then TrimSpace (vs ! j) else [])"
    using fillRow_at [where i = 0 and row = "[]"] by (simp add: cell_def)
  have 5: "\<forall>cols vs. fillRow cols vs 0 [] = fillRow cols (take (length cols) vs) 0 []"
    using fillRow_take by blast
  from 1 2 3 4 5 show ?thesis by blast
qed

theorem rows_cover_columns_in_force_witness:
  "parseALE [''Heading'', ''Column'', joinTabs [''A'', ''B'', ''C''], ''Data'',
             joinTabs [''x'', '' y''], joinTabs [''p'', ''q'', ''r'', ''s'']] False =
     Inr \<lparr>Headers = [], Columns = [''A'', ''B'', ''C''],
          Rows = [[(''A'', ''x''), (''B'', ''y''), (''C'', [])],
                  [(''A'', ''p''), (''B'', ''q''), (''C'', ''r'')]]\<rparr>
   \<and> fst ` set [(''A'', ''x''), (''B'', ''y''), (''C'', [])] = set [''A'', ''B'', ''C'']
   \<and> fst ` set [(''A'', ''p''), (''B'', ''q''), (''C'', ''r'')] = set [''A'', ''B'', ''C'']"
proof -
  let ?cl = "joinTabs [''A'', ''B'', ''C'']"
  let ?post = "[''Data'', joinTabs [''x'', '' y''], joinTabs [''p'', ''q'', ''r'', ''s'']]"
  let ?lines = "[''Heading''] @ ''Column'' # ?cl # ?post"
  let ?r0 = "[(''A'', ''x''), (''B'', ''y''), (''C'', [])]"
  let ?r1 = "[(''A'', ''p''), (''B'', ''q''), (''C'', ''r'')]"
  let ?f = "\<lparr>Headers = [], Columns = [''A'', ''B'', ''C''], Rows = [?r0, ?r1]\<rparr>"
  have p: "parseALE ?lines False = Inr ?f" by code_simp
  have m: "columnMarker ''Column''" by code_simp
  have n: "\<forall>l \<in> set [''Heading''] \<union> set ?post. \<not> columnMarker l" by code_simp
  from rows_cover_columns_in_force [OF p]
  have "\<forall>pre m cl post.
           ?lines = pre @ m # cl # post \<and> columnMarker m
           \<and> (\<forall>l \<in> set pre \<union> set post. \<not> columnMarker l) \<longrightarrow>
           Columns ?f = map TrimSpace (splitTabs cl)
           \<and> (\<forall>r \<in> set (Rows ?f). fst ` set r = set (Columns ?f)
                 \<and> (\<exists>l \<in> set post. r = fillRow (Columns ?f) (splitTabs l) 0 []))"
    by blast
  from this [rule_format, of "[''Heading'']" "''Column''" ?cl ?post] m n
  have "\<forall>r \<in> set (Rows ?f). fst ` set r = set (Columns ?f)"
    by blast
  then have "fst ` set ?r0 = set [''A'', ''B'', ''C''] \<and> fst ` set ?r1 = set [''A'', ''B'', ''C'']"
    by simp
  with p show ?thesis by simp
qed

section \<open>Trimmed cells\<close>

lemma no_space_Nil: "\<not> leadingSpace [] \<and> \<not> trailingSpace []"
  by (auto simp: leadingSpace_def trailingSpace_def dest: spaceRunes_nonempty)

lemma cell_trimmed:
  "\<not> leadingSpace (cell vs n) \<and> \<not> trailingSpace (cell vs n) \<and> TrimSpace (cell vs n) = cell vs n"
  by (simp add: cell_def no_space_Nil TrimSpace_no_leading TrimSpace_no_trailing TrimSpace_idem
      TrimSpace_Nil)

text \<open>
  A column list that declares the name \<open>A\<close> twice: the row holds one value for \<open>A\<close>, the
  second field, and the first field \<open>x\<close> is stored nowhere.
\<close>

theorem repeated_column_counterexample:
  "parseALE [''Column'', joinTabs [''A'', ''A''], ''Data'', joinTabs [''x'', ''y'']] False =
     Inr \<lparr>Headers = [], Columns = [''A'', ''A''], Rows = [[(''A'', ''y'')]]\<rparr>
   \<and> TrimSpace (splitTabs (joinTabs [''x'', ''y'']) ! 0) = ''x''"
  by code_simp

text \<open>
  Claim C9, as the code has it.  Every row of the parsed file was filled from a column
  line and a data line of the input such that: for every declared column whose name does
  not occur again later in the column list, the stored value is the field at the column's
  position with leading and trailing white space removed, or the empty string when the
  line has no field there; and every stored value is such a trimmed field of a column with
  its name.  No stored value has leading or trailing white space, and so no value of the
  residual metadata of the decoded clip has.
\<close>

theorem stored_cells_trimmed:
  assumes "parseALE lines scanErr = Inr f" "r \<in> set (Rows f)"
  shows "(\<exists>cl \<in> set lines. \<exists>l \<in> set lines.
            (\<forall>j < length (splitTabs cl).
               TrimSpace (splitTabs cl ! j) \<notin> set (drop (Suc j) (map TrimSpace (splitTabs cl))) \<longrightarrow>
               get r (TrimSpace (splitTabs cl ! j)) =
                 (if j < length (splitTabs l) then TrimSpace (splitTabs l ! j) else []))
            \<and> (\<forall>k v. (k, v) \<in> set r \<longrightarrow>
                 (\<exists>j < length (splitTabs cl). TrimSpace (splitTabs cl ! j) = k
                    \<and> v = (if j < length (splitTabs l) then TrimSpace (splitTabs l ! j) else []))))
     \<and> (\<forall>k v. (k, v) \<in> set r \<longrightarrow>
           \<not> leadingSpace v \<and> \<not> trailingSpace v \<and> TrimSpace v = v)
     \<and> (\<forall>c m k x. rowToClip lib d r i = Inr c \<and> ALE (Metadata c) = Some m \<and> (k, x) \<in> set m \<longrightarrow>
           (\<exists>v. x = StringValue v \<and> (k, v) \<in> set r
                \<and> \<not> leadingSpace v \<and> \<not> trailingSpace v))"
proof -
  from assms(1) have f: "f = aleFile (parseLoop parserInit lines)" by (rule parseALE_Inr)
  have "parserInv lines (parseLoop parserInit lines)"
    by (rule parseLoop_inv [OF parserInit_inv]) simp
  with f assms(2) have "rowFrom lines r" by (simp add: parserInv_def)
  then obtain cl l where cl: "cl \<in> set lines" and l: "l \<in> set lines"
      and r: "r = fillRow (map TrimSpace (splitTabs cl)) (splitTabs l) 0 []"
    by (auto simp: rowFrom_def)
  let ?cols = "map TrimSpace (splitTabs cl)"
  let ?vs = "splitTabs l"
  have a: "\<forall>j < length (splitTabs cl).
               TrimSpace (splitTabs cl ! j) \<notin> set (drop (Suc j) ?cols) \<longrightarrow>
               get r (TrimSpace (splitTabs cl ! j)) =
                 (if j < length ?vs then TrimSpace (?vs ! j) else [])"
  proof (intro allI impI)
    fix j assume j: "j < length (splitTabs cl)"
      and n: "TrimSpace (splitTabs cl ! j) \<notin> set (drop (Suc j) ?cols)"
    from j have "?cols ! j = TrimSpace (splitTabs cl ! j)" by simp
    with fillRow_at [of j ?cols ?vs 0 "[]"] j n r
    have "map_of r (TrimSpace (splitTabs cl ! j)) = Some (cell ?vs j)" by simp
    then show "get r (TrimSpace (splitTabs cl ! j)) =
                 (if j < length ?vs then TrimSpace (?vs ! j) else [])"
      by (simp add: get_def cell_def)
  qed
  have b: "\<exists>j < length (splitTabs cl). TrimSpace (splitTabs cl ! j) = k
             \<and> v = (if j < length ?vs then TrimSpace (?vs ! j) else [])"
    if "(k, v) \<in> set r" for k v
  proof -
    from that r fillRow_values [of k v ?cols ?vs 0 "[]"]
    obtain j where "j < length ?cols" "?cols ! j = k" "v = cell ?vs j" by auto
    then show ?thesis by (auto simp: cell_def)
  qed
  have c: "\<not> leadingSpace v \<and> \<not> trailingSpace v \<and> TrimSpace v = v" if "(k, v) \<in> set r" for k v
  proof -
    from that r fillRow_values [of k v ?cols ?vs 0 "[]"]
    obtain j where "v = cell ?vs j" by auto
    then show ?thesis by (simp add: cell_trimmed)
  qed
  have e: "\<exists>v. x = StringValue v \<and> (k, v) \<in> set r \<and> \<not> leadingSpace v \<and> \<not> trailingSpace v"
    if "rowToClip lib d r i = Inr c" "ALE (Metadata c) = Some m" "(k, x) \<in> set m" for c m k x
  proof -
    from that(1) have "Metadata c = rowMetadata lib d r"
      by (auto simp: rowToClip_def Let_def split: sum.splits)
    with that(2) have "m = map (\<lambda>(key, v). (key, StringValue v))
                           (filter (\<lambda>(key, v). \<not> excludeColumns d key \<and> v \<noteq> []) r)"
      by (auto simp: rowMetadata_def Let_def split: if_splits)
    with that(3) obtain v where "x = StringValue v" "(k, v) \<in> set r" by auto
    with c [of k v] show ?thesis by blast
  qed
  from a b cl l have "\<exists>cl \<in> set lines. \<exists>l \<in> set lines.
            (\<forall>j < length (splitTabs cl).
               TrimSpace (splitTabs cl ! j) \<notin> set (drop (Suc j) (map TrimSpace (splitTabs cl))) \<longrightarrow>
               get r (TrimSpace (splitTabs cl ! j)) =
                 (if j < length (splitTabs l) then TrimSpace (splitTabs l ! j) else []))
            \<and> (\<forall>k v. (k, v) \<in> set r \<longrightarrow>
                 (\<exists>j < length (splitTabs cl). TrimSpace (splitTabs cl ! j) = k
                    \<and> v = (if j < length (splitTabs l) then TrimSpace (splitTabs l ! j) else [])))"
    by blast
  with c e show ?thesis by blast
qed

theorem stored_cells_trimmed_witness:
  "parseALE [''Column'', joinTabs [''Name'', ''Scene''], ''Data'', joinTabs ['' A  '', ''  12 b '']] False =
     Inr \<lparr>Headers = [], Columns = [''Name'', ''Scene''],
          Rows = [[(''Name'', ''A''), (''Scene'', ''12 b'')]]\<rparr>
   \<and> \<not> leadingSpace ''12 b'' \<and> \<not> trailingSpace ''12 b'' \<and> TrimSpace ''12 b'' = ''12 b''"
proof -
  let ?lines = "[''Column'', joinTabs [''Name'', ''Scene''], ''Data'', joinTabs ['' A  '', ''  12 b '']]"
  let ?r = "[(''Name'', ''A''), (''Scene'', ''12 b'')]"
  let ?f = "\<lparr>Headers = [], Columns = [''Name'', ''Scene''], Rows = [?r]\<rparr>"
  have p: "parseALE ?lines False = Inr ?f" by code_simp
  have r: "?r \<in> set (Rows ?f)" by simp
  from stored_cells_trimmed [OF p r]
  have "\<forall>k v. (k, v) \<in> set ?r \<longrightarrow> \<not> leadingSpace v \<and> \<not> trailingSpace v \<and> TrimSpace v = v"
    by blast
  from this [rule_format, of "''Scene''" "''12 b''"]
  have "\<not> leadingSpace ''12 b'' \<and> \<not> trailingSpace ''12 b'' \<and> TrimSpace ''12 b'' = ''12 b''"
    by simp
  with p show ?thesis by simp
qed

section \<open>Sorting by exchange sorts\<close>

lemma sweep_mset:
  "sweep gt cur ys = (m, r) \<Longrightarrow> mset (m # r) = mset (cur # ys)"
proof (induction ys arbitrary: cur m r)
  case Nil
  then show ?case by simp
next
  case (Cons y ys)
  show ?case
  proof (cases "gt cur y")
    case True
    obtain m' r' where s: "sweep gt y ys = (m', r')" by (cases "sweep gt y ys")
    with True Cons.prems have "m = m'" "r = cur # r'" by simp_all
    with Cons.IH [OF s] show ?thesis by simp
  next
    case False
    obtain m' r' where s: "sweep gt cur ys = (m', r')" by (cases "sweep gt cur ys")
    with False Cons.prems have "m = m'" "r = y # r'" by simp_all
    with Cons.IH [OF s] show ?thesis by simp
  qed
qed

lemma sweep_least:
  fixes cur :: "'a :: linorder"
  shows "sweep (\<lambda>a b. a > b) cur ys = (m, r) \<Longrightarrow> m \<le> cur \<and> (\<forall>x \<in> set ys. m \<le> x)"
proof (induction ys arbitrary: cur m r)
  case Nil
  then show ?case by simp
next
  case (Cons y ys)
  show ?case
  proof (cases "cur > y")
    case True
    obtain m' r' where s: "sweep (\<lambda>a b. a > b) y ys = (m', r')"
      by (cases "sweep (\<lambda>a b. a > b) y ys")
    with True Cons.prems have "m = m'" by simp
    with Cons.IH [OF s] True show ?thesis by auto
  next
    case False
    obtain m' r' where s: "sweep (\<lambda>a b. a > b) cur ys = (m', r')"
      by (cases "sweep (\<lambda>a b. a > b) cur ys")
    with False Cons.prems have "m = m'" by simp
    with Cons.IH [OF s] False show ?thesis by auto
  qed
qed

lemma exchangeSort_mset: "mset (exchangeSort gt xs) = mset xs"
proof (induction gt xs rule: exchangeSort.induct)
  case (1 gt)
  then show ?case by simp
next
  case (2 gt x xs)
  obtain m r where s: "sweep gt x xs = (m, r)" by (cases "sweep gt x xs")
  from "2.IH" [OF s [symmetric]] sweep_mset [OF s] s show ?case by simp
qed

lemma exchangeSort_sorted:
  fixes xs :: "('a :: linorder) list"
  shows "sorted (exchangeSort (\<lambda>a b. a > b) xs)"
proof (induction "\<lambda>a b :: 'a. a > b" xs rule: exchangeSort.induct)
  case 1
  then show ?case by simp
next
  case (2 x xs)
  obtain m r where s: "sweep (\<lambda>a b. a > b) x xs = (m, r)"
    by (cases "sweep (\<lambda>a b. a > b) x xs")
  have "\<forall>y \<in> set r. m \<le> y"
  proof
    fix y assume "y \<in> set r"
    then have "y \<in># mset (m # r)" by simp
    then have "y \<in> set (x # xs)" unfolding sweep_mset [OF s] by simp
    with sweep_least [OF s] show "m \<le> y" by auto
  qed
  moreover have "set (exchangeSort (\<lambda>a b. a > b) r) = set r"
    using exchangeSort_mset [of "\<lambda>a b. a > b" r] by (metis set_mset_mset)
  ultimately show ?case
    using "2.hyps" [OF s [symmetric]] s by simp
qed

lemma exchangeSort_sort:
  fixes xs :: "('a :: linorder) list"
  shows "exchangeSort (\<lambda>a b. a > b) xs = sort xs"
  by (rule properties_for_sort [symmetric]) (simp_all add: exchangeSort_mset exchangeSort_sorted)

lemma exchangeSort_set:
  fixes xs :: "('a :: linorder) list"
  shows "distinct xs \<Longrightarrow> exchangeSort (\<lambda>a b. a > b) xs = sorted_list_of_set (set xs)"
  by (simp add: exchangeSort_sort sorted_list_of_set_sort_remdups distinct_remdups_id)

section \<open>The inferred columns\<close>

lemma set_fold_insert: "set (fold List.insert ks ex) = set ex \<union> set ks"
  by (induction ks arbitrary: ex) auto

lemma distinct_fold_insert: "distinct ex \<Longrightarrow> distinct (fold List.insert ks ex)"
  by (induction ks arbitrary: ex) auto

lemma set_scanClip: "set (scanClip clip ex) = set ex \<union> clipExtras clip"
  by (auto simp: scanClip_def clipExtras_def Let_def set_fold_insert
      split: option.splits MediaReference.splits)

lemma distinct_scanClip: "distinct ex \<Longrightarrow> distinct (scanClip clip ex)"
  by (auto simp: scanClip_def Let_def distinct_fold_insert
      split: option.splits MediaReference.splits)

lemma set_fold_scanClip:
  "set (fold scanClip clips ex) = set ex \<union> (\<Union>clip \<in> set clips. clipExtras clip)"
  by (induction clips arbitrary: ex) (auto simp: set_scanClip)

lemma distinct_fold_scanClip: "distinct ex \<Longrightarrow> distinct (fold scanClip clips ex)"
  by (induction clips arbitrary: ex) (auto simp: distinct_scanClip)

lemma finite_extraSet: "finite (extraSet t)"
proof -
  have "extraSet t = set (fold scanClip (FindClips t) [])"
    by (simp add: set_fold_scanClip extraSet_def)
  then show ?thesis by simp
qed

text \<open>
  A timeline with one clip that has a media file, a CDL with both fields and the metadata
  key \<open>Camera\<close>.  The code puts \<open>Source File\<close> last, after the metadata key, and \<open>ASC_SAT\<close>
  before \<open>ASC_SOP\<close>; the order as stated puts \<open>Source File\<close>, \<open>ASC_SOP\<close> and \<open>ASC_SAT\<close> before
  the metadata keys.
\<close>

theorem column_order_counterexample:
  "determineColumns NewEncoder exampleTimeline =
     [''Name'', ''Start'', ''End'', ''Duration'', ''Tracks'',
      ''ASC_SAT'', ''ASC_SOP'', ''Camera'', ''Source File'']
   \<and> columnsAsStated exampleTimeline =
     [''Name'', ''Start'', ''End'', ''Duration'', ''Tracks'',
      ''Source File'', ''ASC_SOP'', ''ASC_SAT'', ''Camera'']"
  by code_simp

text \<open>
  Claim C8, as the code has it.  A column list given by the caller, if not empty, is the
  result.  Otherwise the result is \<open>Name\<close>, \<open>Start\<close>, \<open>End\<close>, \<open>Duration\<close>, then \<open>Tracks\<close> if the
  timeline has a video or an audio track, and then one sorted sequence without repetitions
  of all extra names: \<open>Source File\<close> if a clip has an external reference with a non-empty
  target, \<open>ASC_SOP\<close> and \<open>ASC_SAT\<close> if a clip has the CDL field, and every key of a clip's
  \<open>ALE\<close> metadata.  The sequence is sorted bytewise, so these names stand among each other
  by their spelling, not in a fixed position; and it is the same in whatever order the
  names are enumerated before they are sorted.
\<close>

theorem determineColumns_sorted_extras:
  "determineColumns e t =
     (if ecolumns e \<noteq> [] then ecolumns e
      else [ColumnName, ColumnStart, ColumnEnd, ColumnDuration]
           @ (if VideoTracks t \<noteq> [] \<or> AudioTracks t \<noteq> [] then [ColumnTracks] else [])
           @ sorted_list_of_set (extraSet t))
   \<and> sorted (sorted_list_of_set (extraSet t))
   \<and> distinct (sorted_list_of_set (extraSet t))
   \<and> set (sorted_list_of_set (extraSet t)) = extraSet t
   \<and> (\<forall>ks. distinct ks \<and> set ks = extraSet t \<longrightarrow>
         exchangeSort (\<lambda>a b. a > b) ks = sorted_list_of_set (extraSet t))
   \<and> (\<forall>clip n u a. clip \<in> set (FindClips t) \<and> MediaRef clip = Some (ExternalReference n u a)
         \<and> u \<noteq> [] \<longrightarrow> ColumnSourceFile \<in> extraSet t)
   \<and> (\<forall>clip c. clip \<in> set (FindClips t) \<and> cdl (Metadata clip) = Some c \<longrightarrow>
         (ASCSOP c \<noteq> None \<longrightarrow> ''ASC_SOP'' \<in> extraSet t)
         \<and> (ASCSat c \<noteq> None \<longrightarrow> ''ASC_SAT'' \<in> extraSet t))
   \<and> (\<forall>clip m k. clip \<in> set (FindClips t) \<and> ALE (Metadata clip) = Some m \<and> k \<in> fst ` set m \<longrightarrow>
         k \<in> extraSet t)"
proof -
  let ?ex = "fold scanClip (FindClips t) []"
  have s: "set ?ex = extraSet t" by (simp add: set_fold_scanClip extraSet_def)
  have d: "distinct ?ex" by (simp add: distinct_fold_scanClip)
  have "exchangeSort (\<lambda>a b. a > b) ?ex = sorted_list_of_set (extraSet t)"
    using exchangeSort_set [OF d] s by simp
  then have 1: "determineColumns e t =
     (if ecolumns e \<noteq> [] then ecolumns e
      else [ColumnName, ColumnStart, ColumnEnd, ColumnDuration]
           @ (if VideoTracks t \<noteq> [] \<or> AudioTracks t \<noteq> [] then [ColumnTracks] else [])
           @ sorted_list_of_set (extraSet t))"
    by (simp add: determineColumns_def Let_def)
  have 2: "sorted (sorted_list_of_set (extraSet t)) \<and> distinct (sorted_list_of_set (extraSet t))
      \<and> set (sorted_list_of_set (extraSet t)) = extraSet t"
    using finite_extraSet [of t] by simp
  have 3: "\<forall>ks. distinct ks \<and> set ks = extraSet t \<longrightarrow>
         exchangeSort (\<lambda>a b. a > b) ks = sorted_list_of_set (extraSet t)"
    using exchangeSort_set by metis
  have 4: "\<forall>clip n u a. clip \<in> set (FindClips t) \<and> MediaRef clip = Some (ExternalReference n u a)
         \<and> u \<noteq> [] \<longrightarrow> ColumnSourceFile \<in> extraSet t"
    by (force simp: extraSet_def clipExtras_def)
  have 5: "\<forall>clip c. clip \<in> set (FindClips t) \<and> cdl (Metadata clip) = Some c \<longrightarrow>
         (ASCSOP c \<noteq> None \<longrightarrow> ''ASC_SOP'' \<in> extraSet t)
         \<and> (ASCSat c \<noteq> None \<longrightarrow> ''ASC_SAT'' \<in> extraSet t)"
    by (force simp: extraSet_def clipExtras_def)
  have 6: "\<forall>clip m k. clip \<in> set (FindClips t) \<and> ALE (Metadata clip) = Some m \<and> k \<in> fst ` set m \<longrightarrow>
         k \<in> extraSet t"
    by (force simp: extraSet_def clipExtras_def)
  from 1 2 3 4 5 6 show ?thesis by blast
qed

theorem determineColumns_sorted_extras_witness:
  "determineColumns NewEncoder exampleTimeline =
     [''Name'', ''Start'', ''End'', ''Duration'', ''Tracks'',
      ''ASC_SAT'', ''ASC_SOP'', ''Camera'', ''Source File'']
   \<and> exchangeSort (\<lambda>a b. a > b) [''Source File'', ''Camera'', ''ASC_SOP'', ''ASC_SAT''] =
       [''ASC_SAT'', ''ASC_SOP'', ''Camera'', ''Source File'']
   \<and> determineColumns (NewEncoder\<lparr>ecolumns := [''Name'', ''Duration'']\<rparr>) exampleTimeline =
       [''Name'', ''Duration'']"
proof -
  have x: "extraSet exampleTimeline = set [''Source File'', ''Camera'', ''ASC_SOP'', ''ASC_SAT'']"
    by (auto simp: extraSet_def clipExtras_def FindClips_def exampleTimeline_def exampleClip_def
        ColumnSourceFile_def)
  have srt: "sorted_list_of_set (extraSet exampleTimeline) =
      [''ASC_SAT'', ''ASC_SOP'', ''Camera'', ''Source File'']"
    unfolding x by code_simp
  have v: "VideoTracks exampleTimeline \<noteq> []" by code_simp
  have c: "ecolumns NewEncoder = []" by (simp add: NewEncoder_def)
  have dk: "distinct [''Source File'', ''Camera'', ''ASC_SOP'', ''ASC_SAT'']" by simp
  note t = determineColumns_sorted_extras [of NewEncoder exampleTimeline]
  from t c v srt have 1: "determineColumns NewEncoder exampleTimeline =
     [''Name'', ''Start'', ''End'', ''Duration'', ''Tracks'',
      ''ASC_SAT'', ''ASC_SOP'', ''Camera'', ''Source File'']"
    by (simp add: ColumnName_def ColumnStart_def ColumnEnd_def ColumnDuration_def ColumnTracks_def)
  from t have "\<forall>ks. distinct ks \<and> set ks = extraSet exampleTimeline \<longrightarrow>
         exchangeSort (\<lambda>a b. a > b) ks = sorted_list_of_set (extraSet exampleTimeline)"
    by blast
  from this [rule_format, of "[''Source File'', ''Camera'', ''ASC_SOP'', ''ASC_SAT'']"] dk x srt
  have 2: "exchangeSort (\<lambda>a b. a > b) [''Source File'', ''Camera'', ''ASC_SOP'', ''ASC_SAT''] =
       [''ASC_SAT'', ''ASC_SOP'', ''Camera'', ''Source File'']"
    by simp
  have 3: "determineColumns (NewEncoder\<lparr>ecolumns := [''Name'', ''Duration'']\<rparr>) exampleTimeline =
       [''Name'', ''Duration'']"
    using determineColumns_sorted_extras [of "NewEncoder\<lparr>ecolumns := [''Name'', ''Duration'']\<rparr>" exampleTimeline]
    by simp
  from 1 2 3 show ?thesis by blast
qed

section \<open>Properties of the decimal numerals\<close>

lemma digitChar_digit:
  "d < 10 \<Longrightarrow> isDigit (digitChar d) \<and> of_char (digitChar d) - (48::nat) = d"
  by (simp add: digitChar_def isDigit_def less_eq_char_def)


lemma showNat_digits: "c \<in> set (showNat n) \<Longrightarrow> isDigit c"
proof (induction n rule: showNat.induct)
  case (1 n)
  show ?case
  proof (cases "n < 10")
    case True
    with "1.prems" show ?thesis
      by (simp add: showNat.simps [of n] digitChar_digit)
  next
    case False
    with "1.prems" "1.IH" show ?thesis
      by (auto simp: showNat.simps [of n] digitChar_digit)
  qed
qed


















section \<open>Strings without white space at their ends\<close>

lemma leadingSpace_hd:
  "leadingSpace s \<Longrightarrow>
     s \<noteq> [] \<and> (hd s \<in> {CHR 0x09, CHR 0x0A, CHR 0x0B, CHR 0x0C, CHR 0x0D, CHR 0x20}
                \<or> (128::nat) \<le> of_char (hd s))"
  by (auto simp: leadingSpace_def spaceRunes_def prefix_def)

lemma trailingSpace_last:
  "trailingSpace s \<Longrightarrow>
     s \<noteq> [] \<and> (last s \<in> {CHR 0x09, CHR 0x0A, CHR 0x0B, CHR 0x0C, CHR 0x0D, CHR 0x20}
                \<or> (128::nat) \<le> of_char (last s))"
  by (auto simp: trailingSpace_def spaceRunes_def suffix_def)

lemma numeralChar_plain:
  "numeralChar c \<Longrightarrow>
     c \<notin> {CHR 0x09, CHR 0x0A, CHR 0x0B, CHR 0x0C, CHR 0x0D, CHR 0x20} \<and> of_char c < (128::nat)"
  by (auto simp: numeralChar_def isDigit_def less_eq_char_def)

lemma numeral_clean:
  assumes "\<forall>c \<in> set s. numeralChar c"
  shows "TrimSpace s = s" and "CHR 0x09 \<notin> set s" and "CHR 0x0A \<notin> set s"
proof -
  show "TrimSpace s = s"
  proof (rule TrimSpace_id)
    show "\<not> leadingSpace s"
    proof
      assume "leadingSpace s"
      from leadingSpace_hd [OF this] have "s \<noteq> []"
        and h: "hd s \<in> {CHR 0x09, CHR 0x0A, CHR 0x0B, CHR 0x0C, CHR 0x0D, CHR 0x20}
                \<or> (128::nat) \<le> of_char (hd s)" by auto
      then have "numeralChar (hd s)" using assms by simp
      from numeralChar_plain [OF this] h show False by auto
    qed
    show "\<not> trailingSpace s"
    proof
      assume "trailingSpace s"
      from trailingSpace_last [OF this] have "s \<noteq> []"
        and h: "last s \<in> {CHR 0x09, CHR 0x0A, CHR 0x0B, CHR 0x0C, CHR 0x0D, CHR 0x20}
                \<or> (128::nat) \<le> of_char (last s)" by auto
      then have "numeralChar (last s)" using assms by simp
      from numeralChar_plain [OF this] h show False by auto
    qed
  qed
  show "CHR 0x09 \<notin> set s" "CHR 0x0A \<notin> set s"
    using assms numeralChar_plain by auto
qed

lemma FormatFixed_chars: "c \<in> set (FormatFixed p x) \<Longrightarrow> numeralChar c"
proof -
  assume "c \<in> set (FormatFixed p x)"
  then have "c = CHR ''-'' \<or> c = CHR ''.'' \<or> c = CHR ''0''
      \<or> (\<exists>n. c \<in> set (showNat n))"
    by (auto simp: FormatFixed_def Let_def padZeros_def split: if_splits)
  moreover have "isDigit (CHR ''0'')" by (simp add: isDigit_def)
  ultimately show ?thesis
    using showNat_digits by (auto simp: numeralChar_def)
qed


lemma FormatFixed_clean:
  "TrimSpace (FormatFixed p x) = FormatFixed p x" "CHR 0x09 \<notin> set (FormatFixed p x)"
  "CHR 0x0A \<notin> set (FormatFixed p x)"
  using numeral_clean [of "FormatFixed p x"] FormatFixed_chars by blast+

section \<open>The cells of an encoded row\<close>

lemma clipCols_lookup:
  "clipCols lib e clip sr cols row = Inr row' \<Longrightarrow>
     map_of row' k =
       (if k \<in> set cols
        then (case cellFor lib e clip sr k of Inr (Some v) \<Rightarrow> Some v | _ \<Rightarrow> map_of row k)
        else map_of row k)"
proof (induction cols arbitrary: row)
  case Nil
  then show ?case by simp
next
  case (Cons col cols)
  show ?case
  proof (cases "cellFor lib e clip sr col")
    case (Inl err)
    with Cons.prems show ?thesis by simp
  next
    case (Inr ov)
    show ?thesis
    proof (cases ov)
      case None
      with Inr Cons.prems have "clipCols lib e clip sr cols row = Inr row'" by simp
      from Cons.IH [OF this] Inr None show ?thesis by auto
    next
      case (Some v)
      with Inr Cons.prems have "clipCols lib e clip sr cols (AList.update col v row) = Inr row'"
        by simp
      from Cons.IH [OF this] Inr Some show ?thesis
        by (auto simp: update_conv' split: sum.splits option.splits)
    qed
  qed
qed





section \<open>Splitting what was joined\<close>

lemma Split_no_sep: "sep \<notin> set x \<Longrightarrow> Split sep x = [x]"
  by (induction x) (auto simp: Let_def)

lemma Split_append_sep:
  "sep \<notin> set x \<Longrightarrow> Split sep (x @ sep # rest) = x # Split sep rest"
  by (induction x) (auto simp: Let_def)

lemma Split_Join:
  "xs \<noteq> [] \<Longrightarrow> \<forall>x \<in> set xs. sep \<notin> set x \<Longrightarrow> Split sep (Join sep xs) = xs"
proof (induction sep xs rule: Join.induct)
  case (1 sep)
  then show ?case by simp
next
  case (2 sep x)
  then show ?case by (simp add: Split_no_sep)
next
  case (3 sep x y ys)
  then show ?case by (simp add: Split_append_sep)
qed

lemma rawLines_Nil: "rawLines [] = []"
  by (simp add: rawLines.simps [of "[]"])

lemma takeWhile_upto: "x \<notin> set l \<Longrightarrow> takeWhile (\<lambda>c. c \<noteq> x) (l @ x # rest) = l"
  by (induction l) auto

lemma dropWhile_upto: "x \<notin> set l \<Longrightarrow> dropWhile (\<lambda>c. c \<noteq> x) (l @ x # rest) = x # rest"
  by (induction l) auto

lemma rawLines_line:
  assumes "CHR 0x0A \<notin> set l"
  shows "rawLines (l @ CHR 0x0A # rest) = l # rawLines rest"
  using assms
  by (simp add: rawLines.simps [of "l @ CHR 0x0A # rest"] takeWhile_upto dropWhile_upto)

lemma rawLines_Join:
  "ls \<noteq> [] \<Longrightarrow> \<forall>l \<in> set ls. CHR 0x0A \<notin> set l \<Longrightarrow>
     rawLines (Join (CHR 0x0A) ls @ [CHR 0x0A]) = ls"
proof (induction "CHR 0x0A" ls rule: Join.induct)
  case 1
  then show ?case by simp
next
  case (2 x)
  then show ?case
    using rawLines_line [of x "[]"] by (simp add: rawLines_Nil)
next
  case (3 x y ys)
  then show ?case
    using rawLines_line [of x "Join (CHR 0x0A) (y # ys) @ [CHR 0x0A]"] by simp
qed

lemma Join_last:
  "ls \<noteq> [] \<Longrightarrow> last ls \<noteq> [] \<Longrightarrow> Join sep ls \<noteq> [] \<and> last (Join sep ls) = last (last ls)"
  by (induction sep ls rule: Join.induct) auto

section \<open>Trimming a line that starts with a clean field\<close>

lemma runes_tab:
  "r \<in> set spaceRunes \<Longrightarrow> length r \<ge> 2 \<Longrightarrow> CHR 0x09 \<notin> set r"
  by (auto simp: spaceRunes_def)

lemma stripRunes_keeps:
  assumes "\<forall>r \<in> set rs. r \<noteq> [] \<longrightarrow> \<not> prefix r z"
    and "\<forall>r \<in> set rs. \<forall>w'. suffix w' w \<and> w' \<noteq> [] \<and> prefix r (w' @ z) \<longrightarrow> length r \<le> length w'"
  shows "suffix z (stripRunes rs (w @ z))"
  using assms
proof (induction "length w" arbitrary: w rule: less_induct)
  case less
  show ?case
  proof (cases "find (\<lambda>r. r \<noteq> [] \<and> prefix r (w @ z)) rs")
    case None
    then show ?thesis by (simp add: stripRunes.simps [of rs "w @ z"] suffix_def)
  next
    case (Some r)
    then have r: "r \<in> set rs" "r \<noteq> []" "prefix r (w @ z)"
      by (auto simp: find_Some_iff)
    have w: "w \<noteq> []"
    proof
      assume "w = []"
      with r less.prems(1) show False by auto
    qed
    with r less.prems(2) have len: "length r \<le> length w" by blast
    then have d: "drop (length r) (w @ z) = drop (length r) w @ z" by simp
    have "suffix z (stripRunes rs (drop (length r) w @ z))"
    proof (rule less.hyps)
      show "length (drop (length r) w) < length w" using r(2) w by simp
      show "\<forall>r \<in> set rs. r \<noteq> [] \<longrightarrow> \<not> prefix r z" by (rule less.prems(1))
      show "\<forall>r' \<in> set rs. \<forall>w'. suffix w' (drop (length r) w) \<and> w' \<noteq> [] \<and> prefix r' (w' @ z)
              \<longrightarrow> length r' \<le> length w'"
        using less.prems(2) by (meson suffix_drop suffix_order.trans)
    qed
    with Some d show ?thesis by (simp add: stripRunes.simps [of rs "w @ z"])
  qed
qed

lemma leadingSpace_append_tab:
  assumes "k \<noteq> []" "\<not> leadingSpace k"
  shows "\<not> leadingSpace (k @ CHR 0x09 # t)"
proof
  assume "leadingSpace (k @ CHR 0x09 # t)"
  then obtain r where r: "r \<in> set spaceRunes" "prefix r (k @ CHR 0x09 # t)"
    by (auto simp: leadingSpace_def)
  from assms(2) r(1) have np: "\<not> prefix r k" by (auto simp: leadingSpace_def)
  with r(2) obtain us where us: "r = k @ us" "prefix us (CHR 0x09 # t)"
    by (auto simp: prefix_append)
  with np have "us \<noteq> []" by auto
  with us(2) obtain u where "us = CHR 0x09 # u" by (cases us) auto
  with us(1) assms(1) have "length r \<ge> 2" "CHR 0x09 \<in> set r" by (cases k; simp)+
  with runes_tab [OF r(1)] show False by simp
qed

lemma TrimRight_keeps:
  assumes "k \<noteq> []" "\<not> trailingSpace k"
  shows "prefix k (TrimRight (k @ CHR 0x09 # t))"
proof -
  let ?rs = "map rev spaceRunes"
  have 1: "\<forall>r \<in> set ?rs. r \<noteq> [] \<longrightarrow> \<not> prefix r (rev k)"
  proof (intro ballI impI)
    fix r assume "r \<in> set ?rs"
    then obtain q where q: "q \<in> set spaceRunes" "r = rev q" by auto
    with assms(2) show "\<not> prefix r (rev k)"
      by (auto simp: trailingSpace_def suffix_to_prefix)
  qed
  have 2: "\<forall>r \<in> set ?rs. \<forall>w'. suffix w' (rev t @ [CHR 0x09]) \<and> w' \<noteq> [] \<and> prefix r (w' @ rev k)
             \<longrightarrow> length r \<le> length w'"
  proof (intro ballI allI impI, elim conjE)
    fix r w' assume r: "r \<in> set ?rs" and s: "suffix w' (rev t @ [CHR 0x09])" and n: "w' \<noteq> []"
      and p: "prefix r (w' @ rev k)"
    from r obtain q where q: "q \<in> set spaceRunes" "r = rev q" by auto
    from s obtain zs where "rev t @ [CHR 0x09] = zs @ w'" by (auto simp: suffix_def)
    then have "last (zs @ w') = CHR 0x09" by (metis last_snoc)
    with n have "last w' = CHR 0x09" by simp
    with n have w: "w' = butlast w' @ [CHR 0x09]" by (metis append_butlast_last_id)
    show "length r \<le> length w'"
    proof (rule ccontr)
      assume "\<not> length r \<le> length w'"
      then have l: "length w' < length r" by simp
      from p have "prefix r w' \<or> (\<exists>us. r = w' @ us \<and> prefix us (rev k))"
        by (simp add: prefix_append)
      moreover have "\<not> prefix r w'" using l prefix_length_le [of r w'] by auto
      ultimately obtain us where "r = w' @ us" by blast
      with w have "CHR 0x09 \<in> set r" by (metis in_set_conv_decomp append_assoc append_Cons)
      moreover from l n have "length q \<ge> 2" using q(2) by (cases w'; simp)
      ultimately show False using runes_tab [OF q(1)] q(2) by simp
    qed
  qed
  have "suffix (rev k) (stripRunes ?rs ((rev t @ [CHR 0x09]) @ rev k))"
    by (rule stripRunes_keeps [OF 1 2])
  then show ?thesis
    by (simp add: TrimRight_def suffix_to_prefix)
qed

lemma TrimSpace_line:
  assumes "k \<noteq> []" "TrimSpace k = k"
  shows "prefix k (TrimSpace (k @ CHR 0x09 # t))"
    and "prefix (TrimSpace (k @ CHR 0x09 # t)) (k @ CHR 0x09 # t)"
proof -
  from assms(2) have l: "\<not> leadingSpace k" and r: "\<not> trailingSpace k"
    using TrimSpace_no_leading [of k] TrimSpace_no_trailing [of k] by simp_all
  have "\<not> leadingSpace (k @ CHR 0x09 # t)"
    by (rule leadingSpace_append_tab [OF assms(1) l])
  then have "TrimLeft (k @ CHR 0x09 # t) = k @ CHR 0x09 # t"
    unfolding TrimLeft_def by (intro stripRunes_id) (auto simp: leadingSpace_def)
  then have e: "TrimSpace (k @ CHR 0x09 # t) = TrimRight (k @ CHR 0x09 # t)"
    by (simp add: TrimSpace_def)
  show "prefix k (TrimSpace (k @ CHR 0x09 # t))"
    unfolding e by (rule TrimRight_keeps [OF assms(1) r])
  show "prefix (TrimSpace (k @ CHR 0x09 # t)) (k @ CHR 0x09 # t)"
    unfolding e by (rule TrimRight_prefix)
qed

lemma line_not_marker:
  assumes "k \<noteq> []" "TrimSpace k = k" "CHR 0x09 \<notin> set m" "\<not> HasPrefix k m"
  shows "\<not> HasPrefix (TrimSpace (k @ CHR 0x09 # t)) m"
proof
  assume h: "HasPrefix (TrimSpace (k @ CHR 0x09 # t)) m"
  from TrimSpace_line [OF assms(1,2), of t]
  obtain u where u: "TrimSpace (k @ CHR 0x09 # t) = k @ u" and p: "prefix (k @ u) (k @ CHR 0x09 # t)"
    by (auto simp: prefix_def)
  from h u have "prefix m (k @ u)" by (simp add: HasPrefix_def)
  with assms(4) obtain us where us: "m = k @ us" "prefix us u"
    by (auto simp: prefix_append HasPrefix_def)
  with assms(4) have "us \<noteq> []" by (auto simp: HasPrefix_def)
  with us(2) p have "hd us = CHR 0x09"
    by (cases us; cases u) auto
  with \<open>us \<noteq> []\<close> us(1) assms(3) show False
    by (cases us) auto
qed

lemma line_nonblank:
  assumes "k \<noteq> []" "TrimSpace k = k"
  shows "TrimSpace (k @ CHR 0x09 # t) \<noteq> []"
  using TrimSpace_line(1) [OF assms, of t] assms(1) by auto

lemma markers_no_tab:
  "CHR 0x09 \<notin> set HeaderHeading" "CHR 0x09 \<notin> set HeaderColumn" "CHR 0x09 \<notin> set HeaderData"
  by (simp_all add: HeaderHeading_def HeaderColumn_def HeaderData_def)

text \<open>A line that starts with a clean name and a tab is a data line or a header line.\<close>

lemma parseLine_data_line:
  assumes "cleanName k" "inData st" "\<not> inHeading st" "columns st \<noteq> []"
  shows "parseLine st (k @ CHR 0x09 # t) nxt =
           (st\<lparr>aleFile := (aleFile st)\<lparr>Rows := Rows (aleFile st) @
                 [fillRow (columns st) (splitTabs (k @ CHR 0x09 # t)) 0 []]\<rparr>\<rparr>, False)"
proof -
  from assms(1) have k: "k \<noteq> []" "TrimSpace k = k"
    and m: "\<not> HasPrefix k HeaderHeading" "\<not> HasPrefix k HeaderColumn" "\<not> HasPrefix k HeaderData"
    by (simp_all add: cleanName_def cleanCell_def)
  note a = line_nonblank [OF k, of t]
    line_not_marker [OF k markers_no_tab(1) m(1), of t]
    line_not_marker [OF k markers_no_tab(2) m(2), of t]
    line_not_marker [OF k markers_no_tab(3) m(3), of t]
  show ?thesis
    using a assms(2-4) by (simp add: parseLine_def Let_def splitTabs_nonempty)
qed

section \<open>Parsing the lines the encoder writes\<close>

lemma splitTabs_pair:
  "CHR 0x09 \<notin> set k \<Longrightarrow> CHR 0x09 \<notin> set v \<Longrightarrow> splitTabs (k @ CHR 0x09 # v) = [k, v]"
  by (simp add: splitTabs_def Split_append_sep Split_no_sep)

lemma parseLine_header_line:
  assumes "cleanName k" "cleanCell v" "inHeading st"
  shows "parseLine st (k @ CHR 0x09 # v) nxt =
           (st\<lparr>aleFile := (aleFile st)\<lparr>Headers := AList.update k v (Headers (aleFile st))\<rparr>\<rparr>, False)"
proof -
  from assms(1) have k: "k \<noteq> []" "TrimSpace k = k" "CHR 0x09 \<notin> set k"
    and m: "\<not> HasPrefix k HeaderHeading" "\<not> HasPrefix k HeaderColumn" "\<not> HasPrefix k HeaderData"
    by (simp_all add: cleanName_def cleanCell_def)
  from assms(2) have v: "TrimSpace v = v" "CHR 0x09 \<notin> set v" by (simp_all add: cleanCell_def)
  note a = line_nonblank [OF k(1,2), of v]
    line_not_marker [OF k(1,2) markers_no_tab(1) m(1), of v]
    line_not_marker [OF k(1,2) markers_no_tab(2) m(2), of v]
    line_not_marker [OF k(1,2) markers_no_tab(3) m(3), of v]
  show ?thesis
    using a assms(3) k v by (simp add: parseLine_def Let_def splitTabs_pair)
qed

lemma putHeader_pair: "putHeader (k, v) h = AList.update k v h"
  by (simp add: putHeader_def)

lemma headerLine_pair: "headerLine (k, v) = k @ CHR 0x09 # v"
  by (simp add: headerLine_def)

lemma parse_header_lines:
  assumes "inHeading st" "\<forall>kv \<in> set hs. cleanName (fst kv) \<and> cleanCell (snd kv)"
  shows "parseLoop st (map headerLine hs @ rest) =
           parseLoop (st\<lparr>aleFile := (aleFile st)\<lparr>Headers := fold putHeader hs (Headers (aleFile st))\<rparr>\<rparr>) rest"
  using assms
proof (induction hs arbitrary: st)
  case Nil
  then show ?case by simp
next
  case (Cons kv hs)
  obtain k v where kv: "kv = (k, v)" by (cases kv)
  let ?st = "st\<lparr>aleFile := (aleFile st)\<lparr>Headers := AList.update k v (Headers (aleFile st))\<rparr>\<rparr>"
  from Cons.prems kv have c: "cleanName k" "cleanCell v" by simp_all
  have step: "parseLine st (k @ CHR 0x09 # v) nxt = (?st, False)" for nxt
    by (rule parseLine_header_line [OF c Cons.prems(1)])
  have "parseLoop st (map headerLine (kv # hs) @ rest) = parseLoop ?st (map headerLine hs @ rest)"
    by (simp add: kv headerLine_pair step)
  also have "\<dots> = parseLoop (?st\<lparr>aleFile := (aleFile ?st)\<lparr>Headers :=
                     fold putHeader hs (Headers (aleFile ?st))\<rparr>\<rparr>) rest"
    using Cons.prems by (intro Cons.IH) simp_all
  finally show ?case by (simp add: kv putHeader_pair del: parseLoop.simps)
qed

lemma joinTabs_Cons:
  "cells \<noteq> [] \<Longrightarrow> joinTabs (k # cells) = k @ CHR 0x09 # joinTabs cells"
  by (cases cells) (simp_all add: joinTabs_def)

lemma splitTabs_joinTabs:
  "cells \<noteq> [] \<Longrightarrow> \<forall>c \<in> set cells. cleanCell c \<Longrightarrow> splitTabs (joinTabs cells) = cells"
  unfolding splitTabs_def joinTabs_def by (rule Split_Join) (auto simp: cleanCell_def)

lemma parse_data_lines:
  assumes "inData st" "\<not> inHeading st" "columns st \<noteq> []" "\<forall>cells \<in> set cellss. rowCells cells"
  shows "parseLoop st (map joinTabs cellss) =
           st\<lparr>aleFile := (aleFile st)\<lparr>Rows := Rows (aleFile st) @
                 map (\<lambda>cells. fillRow (columns st) cells 0 []) cellss\<rparr>\<rparr>"
  using assms
proof (induction cellss arbitrary: st)
  case Nil
  then show ?case by simp
next
  case (Cons cells cellss)
  from Cons.prems(4) have rc: "rowCells cells" by simp
  then obtain k rest where cells: "cells = k # rest" "rest \<noteq> []" "cleanName k"
    by (cases cells; cases "tl cells") (auto simp: rowCells_def)
  from rc have cl: "\<forall>c \<in> set cells. cleanCell c" by (simp add: rowCells_def)
  let ?line = "k @ CHR 0x09 # joinTabs rest"
  have jl: "joinTabs cells = ?line" using cells by (simp add: joinTabs_Cons)
  have sp: "splitTabs ?line = cells"
    using splitTabs_joinTabs [of cells] cl cells jl by simp
  let ?st = "st\<lparr>aleFile := (aleFile st)\<lparr>Rows := Rows (aleFile st) @
               [fillRow (columns st) cells 0 []]\<rparr>\<rparr>"
  have step: "parseLine st ?line nxt = (?st, False)" for nxt
    using parseLine_data_line [OF cells(3) Cons.prems(1-3), of "joinTabs rest" nxt] sp by simp
  have "parseLoop st (map joinTabs (cells # cellss)) = parseLoop ?st (map joinTabs cellss)"
    by (simp add: jl step)
  also have "\<dots> = ?st\<lparr>aleFile := (aleFile ?st)\<lparr>Rows := Rows (aleFile ?st) @
                 map (\<lambda>cells. fillRow (columns ?st) cells 0 []) cellss\<rparr>\<rparr>"
    using Cons.prems by (intro Cons.IH) simp_all
  finally show ?case by (simp del: parseLoop.simps)
qed

lemma marker_lines:
  "TrimSpace HeaderHeading = HeaderHeading" "TrimSpace HeaderColumn = HeaderColumn"
  "TrimSpace HeaderData = HeaderData" 
  by code_simp+

lemma parse_aleLines:
  assumes "\<forall>kv \<in> set hs. cleanName (fst kv) \<and> cleanCell (snd kv)"
    and "cols \<noteq> []" "\<forall>c \<in> set cols. cleanCell c"
    and "\<forall>cells \<in> set cellss. rowCells cells"
  shows "parseLoop parserInit
           ([HeaderHeading] @ map headerLine hs @ [[]] @ [HeaderColumn, joinTabs cols, []]
            @ [HeaderData] @ map joinTabs cellss) =
         \<lparr>inHeading = False, inData = True, columns = cols,
          aleFile = \<lparr>Headers = fold putHeader hs [], Columns = cols,
                     Rows = map (\<lambda>cells. fillRow cols cells 0 []) cellss\<rparr>\<rparr>"
proof -
  let ?st1 = "parserInit\<lparr>inHeading := True\<rparr>"
  let ?st2 = "?st1\<lparr>aleFile := (aleFile ?st1)\<lparr>Headers := fold putHeader hs (Headers (aleFile ?st1))\<rparr>\<rparr>"
  let ?st3 = "?st2\<lparr>inHeading := False, columns := cols, aleFile := (aleFile ?st2)\<lparr>Columns := cols\<rparr>\<rparr>"
  let ?st4 = "?st3\<lparr>inData := True\<rparr>"
  let ?tail = "[[]] @ [HeaderColumn, joinTabs cols, []] @ [HeaderData] @ map joinTabs cellss"
  have h: "parseLine st HeaderHeading nxt = (st\<lparr>inHeading := True\<rparr>, False)" for st nxt
    by (rule parseLine_heading) (simp add: marker_lines HasPrefix_def)
  have a: "parseLoop parserInit ([HeaderHeading] @ map headerLine hs @ ?tail)
      = parseLoop ?st1 (map headerLine hs @ ?tail)"
    by (simp add: h)
  have b: "parseLoop ?st1 (map headerLine hs @ ?tail) = parseLoop ?st2 ?tail"
    by (rule parse_header_lines) (simp_all add: assms(1))
  have cm: "columnMarker HeaderColumn"
    by (simp add: columnMarker_def marker_lines HasPrefix_def)
  have sc: "map TrimSpace (splitTabs (joinTabs cols)) = cols"
    using splitTabs_joinTabs [OF assms(2,3)] assms(3) by (simp add: cleanCell_def map_idI)
  have d: "parseLine st HeaderData nxt = (st\<lparr>inData := True\<rparr>, False)" for st nxt
    by (rule parseLine_data) (simp add: marker_lines HasPrefix_def)
  have c: "parseLoop ?st2 ?tail = parseLoop ?st4 (map joinTabs cellss)"
    by (simp add: parseLine_blank TrimSpace_Nil parseLine_column(1) [OF cm] sc d)
  have e: "parseLoop ?st4 (map joinTabs cellss) =
      ?st4\<lparr>aleFile := (aleFile ?st4)\<lparr>Rows := Rows (aleFile ?st4) @
                 map (\<lambda>cells. fillRow (columns ?st4) cells 0 []) cellss\<rparr>\<rparr>"
    by (rule parse_data_lines) (simp_all add: assms)
  show ?thesis
    unfolding append_assoc [symmetric]
    using a b c e by (simp add: parserInit_def NewALEFile_def)
qed

section \<open>The cells the encoder writes for a clean clip\<close>

lemma cleanCell_Nil: "cleanCell []"
  by (simp add: cleanCell_def TrimSpace_Nil)

lemma plain_ends_clean:
  assumes "s \<noteq> []"
    and "hd s \<notin> {CHR 0x09, CHR 0x0A, CHR 0x0B, CHR 0x0C, CHR 0x0D, CHR 0x20}"
        "of_char (hd s) < (128::nat)"
    and "last s \<notin> {CHR 0x09, CHR 0x0A, CHR 0x0B, CHR 0x0C, CHR 0x0D, CHR 0x20}"
        "of_char (last s) < (128::nat)"
  shows "TrimSpace s = s"
proof (rule TrimSpace_id)
  show "\<not> leadingSpace s"
    using leadingSpace_hd [of s] assms(2,3) by auto
  show "\<not> trailingSpace s"
    using trailingSpace_last [of s] assms(4,5) by auto
qed

lemma formatTriple_chars:
  "c \<in> set (formatTriple t) \<Longrightarrow> numeralChar c \<or> c = CHR ''('' \<or> c = CHR '' '' \<or> c = CHR '')''"
  by (cases t) (auto simp: formatTriple_def dest: FormatFixed_chars)

lemma formatTriple_ends:
  "\<exists>r. formatTriple t = CHR ''('' # r @ [CHR '')'']"
  by (cases t) (simp add: formatTriple_def)

lemma formatASCSOP_clean: "cleanCell (formatASCSOP sop)"
proof -
  let ?s = "formatASCSOP sop"
  obtain r1 where r1: "formatTriple (Slope sop) = CHR ''('' # r1 @ [CHR '')'']"
    using formatTriple_ends by blast
  obtain r3 where r3: "formatTriple (Power sop) = CHR ''('' # r3 @ [CHR '')'']"
    using formatTriple_ends by blast
  have s: "?s = CHR ''('' # (r1 @ [CHR '')''] @ formatTriple (Offset sop) @ CHR ''('' # r3) @ [CHR '')'']"
    by (simp add: formatASCSOP_def r1 r3)
  have h: "hd ?s = CHR ''(''" and l: "last ?s = CHR '')''" and n: "?s \<noteq> []"
    unfolding s by simp_all
  have t: "TrimSpace ?s = ?s"
    by (rule plain_ends_clean [OF n]) (simp_all add: h l)
  have c: "numeralChar c \<or> c = CHR ''('' \<or> c = CHR '' '' \<or> c = CHR '')''" if "c \<in> set ?s" for c
    using that formatTriple_chars [of c "Slope sop"] formatTriple_chars [of c "Offset sop"]
      formatTriple_chars [of c "Power sop"]
    by (auto simp: formatASCSOP_def)
  have "CHR 0x09 \<notin> set ?s" "CHR 0x0A \<notin> set ?s"
    using c numeralChar_plain by fastforce+
  with t show ?thesis by (simp add: cleanCell_def)
qed

lemma FormatInt_clean: "cleanCell (FormatInt i)"
proof -
  have "\<forall>c \<in> set (FormatInt i). numeralChar c"
    by (auto simp: FormatInt_def numeralChar_def dest: showNat_digits)
  from numeral_clean [OF this] show ?thesis by (simp add: cleanCell_def)
qed

lemma FormatFixed_cleanCell: "cleanCell (FormatFixed p x)"
  by (simp add: cleanCell_def FormatFixed_clean)

lemmas column_names =
  ColumnName_def ColumnStart_def ColumnEnd_def ColumnDuration_def ColumnTracks_def
  ColumnSourceFile_def ColumnTape_def

lemma structural_clean: "c \<in> set structuralColumns \<Longrightarrow> cleanCell c"
proof -
  have "list_all cleanCell structuralColumns" by code_simp
  then show "c \<in> set structuralColumns \<Longrightarrow> cleanCell c" by (simp add: list_all_iff)
qed

lemma cleanMetadata_entry:
  assumes "cleanMetadata clip" "ALE (Metadata clip) = Some m" "map_of m k = Some x"
  shows "\<exists>v. x = StringValue v \<and> v \<noteq> [] \<and> cleanCell v \<and> cleanCell k \<and> k \<notin> set structuralColumns"
proof -
  from assms(3) have "(k, x) \<in> set m" by (rule map_of_SomeD)
  with assms(1,2) have "cleanEntry (k, x)" by (auto simp: cleanMetadata_def list_all_iff)
  then show ?thesis by (cases x) (simp_all add: cleanEntry_def)
qed

lemma cellFor_time:
  assumes "timeRoundTrips lib e r clip"
  shows "clipRange clip = None \<Longrightarrow>
           cellFor lib e clip (clipRange clip) ColumnStart = Inr None
           \<and> cellFor lib e clip (clipRange clip) ColumnEnd = Inr None
           \<and> cellFor lib e clip (clipRange clip) ColumnDuration = Inr None"
    and "clipRange clip = Some tr \<Longrightarrow>
           \<exists>startTC endTC endTime.
             cellFor lib e clip (clipRange clip) ColumnStart = Inr (Some startTC)
             \<and> cellFor lib e clip (clipRange clip) ColumnEnd = Inr (Some endTC)
             \<and> startTC \<noteq> [] \<and> endTC \<noteq> [] \<and> cleanCell startTC \<and> cleanCell endTC
             \<and> parseTimecode lib startTC r = Inr (start_time tr)
             \<and> parseTimecode lib endTC r = Inr endTime
             \<and> DurationFromStartEndTime lib (start_time tr) endTime = duration tr
             \<and> cellFor lib e clip (clipRange clip) ColumnDuration =
                 Inr (Some (formatFrameNumber lib (duration tr) (efps e)))"
proof -
  show "clipRange clip = None \<Longrightarrow>
           cellFor lib e clip (clipRange clip) ColumnStart = Inr None
           \<and> cellFor lib e clip (clipRange clip) ColumnEnd = Inr None
           \<and> cellFor lib e clip (clipRange clip) ColumnDuration = Inr None"
    by (simp add: cellFor_def column_names)
  assume tr: "clipRange clip = Some tr"
  with assms show "\<exists>startTC endTC endTime.
             cellFor lib e clip (clipRange clip) ColumnStart = Inr (Some startTC)
             \<and> cellFor lib e clip (clipRange clip) ColumnEnd = Inr (Some endTC)
             \<and> startTC \<noteq> [] \<and> endTC \<noteq> [] \<and> cleanCell startTC \<and> cleanCell endTC
             \<and> parseTimecode lib startTC r = Inr (start_time tr)
             \<and> parseTimecode lib endTC r = Inr endTime
             \<and> DurationFromStartEndTime lib (start_time tr) endTime = duration tr
             \<and> cellFor lib e clip (clipRange clip) ColumnDuration =
                 Inr (Some (formatFrameNumber lib (duration tr) (efps e)))"
    by (auto simp: timeRoundTrips_def cellFor_def column_names split: option.splits sum.splits)
qed

lemma cellFor_clean:
  assumes "roundTripClip lib e d clip"
  shows "\<exists>v. cellFor lib e clip (clipRange clip) col = Inr v \<and> (\<forall>s. v = Some s \<longrightarrow> cleanCell s)"
proof -
  from assms have nm: "cleanCell (Name clip)" and md: "cleanMetadata clip" and rf: "cleanRef clip"
    and tm: "timeRoundTrips lib e (decodedFPS lib e d) clip"
    by (simp_all add: roundTripClip_def cleanName_def)
  consider (name) "col = ColumnName" | (start) "col = ColumnStart" | (fin) "col = ColumnEnd"
    | (dur) "col = ColumnDuration" | (tracks) "col = ColumnTracks"
    | (media) "col = ColumnSourceFile \<or> col = ColumnTape" | (sop) "col = ''ASC_SOP''"
    | (sat) "col = ''ASC_SAT''" | (other) "col \<notin> set structuralColumns"
    by (auto simp: structuralColumns_def)
  then show ?thesis
  proof cases
    case name
    then show ?thesis using nm by (simp add: cellFor_def)
  next
    case start
    show ?thesis
      using cellFor_time [OF tm] start by (cases "clipRange clip") auto
  next
    case fin
    show ?thesis
      using cellFor_time [OF tm] fin by (cases "clipRange clip") auto
  next
    case dur
    show ?thesis
    proof (cases "clipRange clip")
      case None
      with cellFor_time(1) [OF tm] dur show ?thesis by simp
    next
      case (Some tr)
      from cellFor_time(2) [OF tm Some] dur show ?thesis
        by (auto simp: formatFrameNumber_def FormatInt_clean)
    qed
  next
    case tracks
    have "cleanCell ''V''" by code_simp
    with tracks show ?thesis by (simp add: cellFor_def column_names)
  next
    case media
    then show ?thesis
      using rf by (auto simp: cellFor_def column_names cleanRef_def
          split: option.splits MediaReference.splits)
  next
    case sop
    then show ?thesis
      by (auto simp: cellFor_def column_names formatASCSOP_clean split: option.splits)
  next
    case sat
    then show ?thesis
      by (auto simp: cellFor_def column_names FormatFixed_cleanCell split: option.splits)
  next
    case other
    then have ne: "col \<noteq> ColumnName" "col \<noteq> ColumnStart" "col \<noteq> ColumnEnd" "col \<noteq> ColumnDuration"
      "col \<noteq> ColumnTracks" "col \<noteq> ColumnSourceFile" "col \<noteq> ColumnTape" "col \<noteq> ''ASC_SOP''"
      "col \<noteq> ''ASC_SAT''"
      by (auto simp: structuralColumns_def)
    show ?thesis
    proof (cases "ALE (Metadata clip)")
      case None
      then show ?thesis using ne by (simp add: cellFor_def)
    next
      case (Some m)
      show ?thesis
      proof (cases "map_of m col")
        case None
        then show ?thesis using ne Some by (simp add: cellFor_def)
      next
        case (Some x)
        from cleanMetadata_entry [OF md \<open>ALE (Metadata clip) = Some m\<close> Some]
        obtain v where "x = StringValue v" "cleanCell v" by blast
        then show ?thesis using ne Some \<open>ALE (Metadata clip) = Some m\<close> by (simp add: cellFor_def)
      qed
    qed
  qed
qed

lemma cellOf_clean: "roundTripClip lib e d clip \<Longrightarrow> cleanCell (cellOf lib e clip col)"
  using cellFor_clean [of lib e d clip col]
  by (auto simp: cellOf_def cleanCell_Nil split: option.splits)

lemma clipCols_clean:
  assumes "roundTripClip lib e d clip"
  shows "\<exists>row'. clipCols lib e clip (clipRange clip) cols row = Inr row'"
proof (induction cols arbitrary: row)
  case Nil
  then show ?case by simp
next
  case (Cons c cols)
  from cellFor_clean [OF assms, of c] obtain v where
    "cellFor lib e clip (clipRange clip) c = Inr v" by blast
  then show ?case using Cons.IH by (cases v) simp_all
qed

lemma clipToRow_get:
  assumes "roundTripClip lib e d clip"
  shows "\<exists>row. clipToRow lib e clip cols = Inr row
           \<and> (\<forall>k. get row k = (if k \<in> set cols then cellOf lib e clip k else []))"
proof -
  from clipCols_clean [OF assms, of cols "[]"] obtain row where
    r: "clipCols lib e clip (clipRange clip) cols [] = Inr row" by blast
  have "get row k = (if k \<in> set cols then cellOf lib e clip k else [])" for k
    using clipCols_lookup [OF r, of k] cellFor_clean [OF assms, of k]
    by (auto simp: get_def cellOf_def split: option.splits)
  with r show ?thesis by (simp add: clipToRow_def)
qed

lemma clipsToRows_get:
  assumes "list_all (roundTripClip lib e d) clips"
  shows "\<exists>rows. clipsToRows lib e clips cols = Inr rows
           \<and> map (\<lambda>row. map (get row) cols) rows = map (\<lambda>clip. map (cellOf lib e clip) cols) clips"
  using assms
proof (induction clips)
  case Nil
  then show ?case by simp
next
  case (Cons clip clips)
  then have c: "roundTripClip lib e d clip" and cs: "list_all (roundTripClip lib e d) clips"
    by simp_all
  from clipToRow_get [OF c, of cols] obtain row where
    r: "clipToRow lib e clip cols = Inr row"
    and g: "\<forall>k. get row k = (if k \<in> set cols then cellOf lib e clip k else [])" by blast
  from Cons.IH [OF cs] obtain rows where
    rs: "clipsToRows lib e clips cols = Inr rows"
    and gs: "map (\<lambda>row. map (get row) cols) rows = map (\<lambda>clip. map (cellOf lib e clip) cols) clips"
    by blast
  have "map (get row) cols = map (cellOf lib e clip) cols"
    using g by simp
  with r rs gs show ?case by simp
qed

end
